theory Spec2Isabelle
  imports Complex_Main "HOL-Library.Word" "HOL-Library.Monad_Syntax"
begin

section \<open>Bytes\<close>

text \<open>An element of a Uint8Array. \<open>ascii\<close> gives the char codes of an ASCII string.\<close>

type_synonym byte = "8 word"

definition ascii :: "string \<Rightarrow> byte list" where
  "ascii s = map of_char s"

text \<open>
  \<open>arr[offset + i] = s.charCodeAt(i)\<close> for every \<open>i\<close>: an indexed store outside a typed array
  is ignored, as \<open>list_update\<close> does.
\<close>

definition writeAsciiTo :: "byte list \<Rightarrow> nat \<Rightarrow> string \<Rightarrow> byte list" where
  "writeAsciiTo arr offset s = foldl (\<lambda>a i. a[offset + i := of_char (s ! i)]) arr [0..<length s]"

text \<open>
  The little-endian bytes that \<open>DataView.setUint16\<close> and \<open>setUint32\<close> store: the value is
  an integer here, reduced modulo \<open>2^16\<close> or \<open>2^32\<close>.
\<close>

definition u16le :: "int \<Rightarrow> byte list" where
  "u16le v = (let w = v mod 2 ^ 16 in [word_of_int w, word_of_int (w div 256)])"

definition u32le :: "int \<Rightarrow> byte list" where
  "u32le v =
     (let w = v mod 2 ^ 32
      in [word_of_int w, word_of_int (w div 256), word_of_int (w div 65536), word_of_int (w div 16777216)])"

text \<open>Overwriting the elements of \<open>arr\<close> from \<open>offset\<close> on with \<open>bs\<close>, when they fit.\<close>

definition write_at :: "'a list \<Rightarrow> nat \<Rightarrow> 'a list \<Rightarrow> 'a list" where
  "write_at arr offset bs = take offset arr @ bs @ drop (offset + length bs) arr"

text \<open>The DataView setters throw RangeError when the value does not fit in the view.\<close>

definition setUint16 :: "byte list \<Rightarrow> nat \<Rightarrow> int \<Rightarrow> byte list option" where
  "setUint16 dv offset v = (if offset + 2 \<le> length dv then Some (write_at dv offset (u16le v)) else None)"

definition setUint32 :: "byte list \<Rightarrow> nat \<Rightarrow> int \<Rightarrow> byte list option" where
  "setUint32 dv offset v = (if offset + 4 \<le> length dv then Some (write_at dv offset (u32le v)) else None)"

text \<open>\<open>arr.set(src, offset)\<close> throws RangeError when \<open>src\<close> does not fit at \<open>offset\<close>.\<close>

definition set_at :: "'a list \<Rightarrow> 'a list \<Rightarrow> nat \<Rightarrow> 'a list option" where
  "set_at arr src offset =
     (if offset + length src \<le> length arr then Some (write_at arr offset src) else None)"

section \<open>Region mapper (exportWav.ts, buildAcDryRegions)\<close>

text \<open>
  MIDI notes, key numbers and frame counts are JavaScript numbers that only ever hold
  integers here; they are modelled as \<open>int\<close>, and \<open>Math.floor(a / 2)\<close> on an integer
  \<open>a\<close> is \<open>a div 2\<close> (both round towards minus infinity).
\<close>

record AcDryRegion =
  sample_start :: int
  sample_end :: int
  sample_lokey :: int
  sample_hikey :: int
  sound_rootnote :: int

text \<open>\<open>xs[i] ?? d\<close>: an index outside the array reads \<open>undefined\<close>, replaced by \<open>d\<close>.\<close>

definition nth_or :: "'a list \<Rightarrow> nat \<Rightarrow> 'a \<Rightarrow> 'a" where
  "nth_or xs i d = (if i < length xs then xs ! i else d)"

text \<open>The \<open>boundaries\<close> array of buildAcDryRegions: \<open>[0]\<close>, one push per \<open>i = 1 .. length - 1\<close>, then 127.\<close>

definition boundaries :: "int list \<Rightarrow> int list" where
  "boundaries sortedNotes =
     [0] @ map (\<lambda>i. (sortedNotes ! (i - 1) + sortedNotes ! i + 1) div 2) [1..<length sortedNotes] @ [127]"

text \<open>
  The second loop of buildAcDryRegions, over the indices still to visit, with
  \<open>currentFrame\<close> as the accumulator.
\<close>

fun regions_loop :: "int list \<Rightarrow> int list \<Rightarrow> int list \<Rightarrow> nat list \<Rightarrow> int \<Rightarrow> AcDryRegion list" where
  "regions_loop sortedNotes frameLengthsByIndex bs [] currentFrame = []"
| "regions_loop sortedNotes frameLengthsByIndex bs (i # is) currentFrame =
     (let frames = nth_or frameLengthsByIndex i 0 in
      if frames \<le> 0 then regions_loop sortedNotes frameLengthsByIndex bs is currentFrame
      else
        \<lparr> sample_start = currentFrame,
          sample_end = currentFrame + frames,
          sample_lokey = nth_or bs i 0,
          sample_hikey = nth_or bs (i + 1) 127,
          sound_rootnote = sortedNotes ! i \<rparr>
        # regions_loop sortedNotes frameLengthsByIndex bs is (currentFrame + frames))"

definition buildAcDryRegions :: "int list \<Rightarrow> int list \<Rightarrow> AcDryRegion list" where
  "buildAcDryRegions sortedNotes frameLengthsByIndex =
     (if length sortedNotes = 0 then []
      else regions_loop sortedNotes frameLengthsByIndex (boundaries sortedNotes)
             [0..<length sortedNotes] 0)"

text \<open>The closed key range of a region, as a set of keys.\<close>

definition key_range :: "AcDryRegion \<Rightarrow> int set" where
  "key_range r = {sample_lokey r .. sample_hikey r}"

section \<open>JavaScript numbers and the PCM16 quantizer (exportWav.ts, clampInt16)\<close>

text \<open>
  A JavaScript number is a finite value, one of the two infinities, or NaN. Finite values
  are modelled as reals. The products in clampInt16 are taken exactly, which is what the
  program computes: the argument is read from a Float32Array, so it has a 24-bit significand,
  and its products with \<open>0x8000\<close> and \<open>0x7fff\<close> fit the 53-bit significand of a double
  without rounding.
\<close>

datatype jsnum = Num real | PosInf | NegInf | NaN

text \<open>\<open>x > c\<close> and \<open>x < c\<close> for a finite constant \<open>c\<close>: every comparison with NaN is false.\<close>

fun js_gt :: "jsnum \<Rightarrow> real \<Rightarrow> bool" where
  "js_gt (Num r) c = (r > c)"
| "js_gt PosInf c = True"
| "js_gt NegInf c = False"
| "js_gt NaN c = False"

fun js_lt :: "jsnum \<Rightarrow> real \<Rightarrow> bool" where
  "js_lt (Num r) c = (r < c)"
| "js_lt PosInf c = False"
| "js_lt NegInf c = True"
| "js_lt NaN c = False"

text \<open>\<open>x * c\<close> for a finite constant \<open>c\<close>: an infinity times zero is NaN.\<close>

fun js_mul :: "jsnum \<Rightarrow> real \<Rightarrow> jsnum" where
  "js_mul (Num r) c = Num (r * c)"
| "js_mul PosInf c = (if c > 0 then PosInf else if c < 0 then NegInf else NaN)"
| "js_mul NegInf c = (if c > 0 then NegInf else if c < 0 then PosInf else NaN)"
| "js_mul NaN c = NaN"

text \<open>
  \<open>x | 0\<close> is the abstract operation ToInt32 of ECMAScript: NaN and the infinities give 0;
  a finite value is cut to \<open>sign(x) * floor(abs(x))\<close>, reduced modulo \<open>2^32\<close> and read as
  a signed 32-bit integer.
\<close>

fun ToInt32 :: "jsnum \<Rightarrow> int" where
  "ToInt32 (Num r) =
     (let i = (if r < 0 then - \<lfloor>\<bar>r\<bar>\<rfloor> else \<lfloor>\<bar>r\<bar>\<rfloor>);
          int32bit = i mod 2 ^ 32
      in if int32bit \<ge> 2 ^ 31 then int32bit - 2 ^ 32 else int32bit)"
| "ToInt32 PosInf = 0"
| "ToInt32 NegInf = 0"
| "ToInt32 NaN = 0"

definition clampInt16 :: "jsnum \<Rightarrow> int" where
  "clampInt16 x0 =
     (let x1 = (if js_gt x0 1 then Num 1 else x0);
          x2 = (if js_lt x1 (- 1) then Num (- 1) else x1)
      in ToInt32 (if js_lt x2 0 then js_mul x2 32768 else js_mul x2 32767))"

subsection \<open>The quantizer in the words of the specification\<close>

text \<open>
  Section 4.4 of the specification: clamp \<open>x\<close> to \<open>[-1, 1]\<close>; if \<open>x < 0\<close> the result is
  \<open>truncate(x * 32768)\<close>, else \<open>truncate(x * 32767)\<close>, truncating towards zero. NaN is
  left alone by a clamp and has no integer part; its truncation is taken to be 0.
\<close>

fun clamp_unit :: "jsnum \<Rightarrow> jsnum" where
  "clamp_unit (Num r) = Num (max (- 1) (min 1 r))"
| "clamp_unit PosInf = Num 1"
| "clamp_unit NegInf = Num (- 1)"
| "clamp_unit NaN = NaN"

definition truncate_real :: "real \<Rightarrow> int" where
  "truncate_real r = (if r < 0 then \<lceil>r\<rceil> else \<lfloor>r\<rfloor>)"

fun truncate_js :: "jsnum \<Rightarrow> int" where
  "truncate_js (Num r) = truncate_real r"
| "truncate_js x = 0"

definition quantize :: "jsnum \<Rightarrow> int" where
  "quantize x =
     (let c = clamp_unit x
      in if js_lt c 0 then truncate_js (js_mul c 32768) else truncate_js (js_mul c 32767))"

section \<open>Float32 and double arithmetic\<close>

text \<open>
  The channel remixer adds and scales samples in a Float32Array: each operation is carried
  out on doubles and rounded to the nearest double, and each store rounds the result to the
  nearest Float32 value, ties to even in both cases. A binary format is given by its number
  \<open>p\<close> of significant bits and its exponent range \<open>emin .. emax\<close>. The two zeros are not
  told apart; they are equal as numbers and clampInt16 sends both to 0.
\<close>

definition pow2 :: "int \<Rightarrow> real" where
  "pow2 e = (if e \<ge> 0 then 2 ^ nat e else 1 / 2 ^ nat (- e))"

definition round_half_even :: "real \<Rightarrow> int" where
  "round_half_even x =
     (let f = \<lfloor>x\<rfloor>; d = x - of_int f
      in if d < 1 / 2 then f else if d > 1 / 2 then f + 1 else if even f then f else f + 1)"

text \<open>
  The exponent \<open>e\<close> in \<open>lo .. hi - 1\<close> with \<open>2^e \<le> a < 2^(e + 1)\<close>, found by bisection; \<open>lo\<close>
  when \<open>a\<close> is below \<open>2^lo\<close> and \<open>hi - 1\<close> when it is not below \<open>2^hi\<close>.
\<close>

function exponent_search :: "int \<Rightarrow> int \<Rightarrow> real \<Rightarrow> int" where
  "exponent_search lo hi a =
     (if hi \<le> lo + 1 then lo
      else if pow2 ((lo + hi) div 2) \<le> a then exponent_search ((lo + hi) div 2) hi a
      else exponent_search lo ((lo + hi) div 2) a)"
  by pat_completeness auto
termination
  by (relation "measure (\<lambda>(lo, hi, a). nat (hi - lo))") auto

declare exponent_search.simps [simp del]

text \<open>
  Rounding a real to the format: below \<open>2^emin\<close> the spacing is that of the subnormal
  values, and a result of magnitude \<open>2^(emax + 1)\<close> or more is an infinity.
\<close>

definition round_to :: "nat \<Rightarrow> int \<Rightarrow> int \<Rightarrow> real \<Rightarrow> jsnum" where
  "round_to p emin emax x =
     (let e = exponent_search emin (emax + 1) \<bar>x\<bar>;
          ulp = pow2 (e - int p + 1);
          y = of_int (round_half_even (x / ulp)) * ulp
      in if \<bar>y\<bar> \<ge> pow2 (emax + 1) then (if y > 0 then PosInf else NegInf) else Num y)"

definition round_double :: "real \<Rightarrow> jsnum" where
  "round_double x = round_to 53 (- 1022) 1023 x"

definition round_float32 :: "real \<Rightarrow> jsnum" where
  "round_float32 x = round_to 24 (- 126) 127 x"

text \<open>A store into a Float32Array (\<open>Math.fround\<close>).\<close>

fun fround :: "jsnum \<Rightarrow> jsnum" where
  "fround (Num r) = round_float32 r"
| "fround x = x"

text \<open>\<open>a + b\<close> and \<open>a * b\<close> on numbers: NaN spreads, opposite infinities add to NaN, and an
  infinity times zero is NaN.\<close>

fun double_add :: "jsnum \<Rightarrow> jsnum \<Rightarrow> jsnum" where
  "double_add (Num a) (Num b) = round_double (a + b)"
| "double_add NaN y = NaN"
| "double_add x NaN = NaN"
| "double_add PosInf NegInf = NaN"
| "double_add NegInf PosInf = NaN"
| "double_add PosInf y = PosInf"
| "double_add NegInf y = NegInf"
| "double_add (Num a) y = y"

fun js_sign :: "jsnum \<Rightarrow> int" where
  "js_sign (Num r) = (if r > 0 then 1 else if r < 0 then - 1 else 0)"
| "js_sign PosInf = 1"
| "js_sign NegInf = - 1"
| "js_sign NaN = 0"

fun double_mul :: "jsnum \<Rightarrow> jsnum \<Rightarrow> jsnum" where
  "double_mul (Num a) (Num b) = round_double (a * b)"
| "double_mul NaN y = NaN"
| "double_mul x NaN = NaN"
| "double_mul x y =
     (if js_sign x * js_sign y > 0 then PosInf else if js_sign x * js_sign y < 0 then NegInf else NaN)"

text \<open>\<open>1 / n\<close> for a count \<open>n\<close>: Infinity when \<open>n\<close> is 0.\<close>

definition double_recip :: "nat \<Rightarrow> jsnum" where
  "double_recip n = (if n = 0 then PosInf else round_double (1 / real n))"

section \<open>Decoded audio and the channel remixer (exportWav.ts, toTargetChannels)\<close>

text \<open>
  A Web Audio \<open>AudioBuffer\<close>: its frame count \<open>length\<close>, its sample rate and one
  Float32Array per channel, whose elements are Float32 values, infinities or NaN. A call that
  throws a DOM exception returns \<open>None\<close>.
\<close>

record AudioBuffer =
  length_buf :: nat
  sampleRate_buf :: nat
  channelData :: "jsnum list list"

definition numberOfChannels :: "AudioBuffer \<Rightarrow> nat" where
  "numberOfChannels buffer = length (channelData buffer)"

text \<open>
  What Web Audio guarantees of every AudioBuffer: at least one channel, at least one frame,
  and \<open>length\<close> samples in each channel. Its sample rate is one that Web Audio supports.
\<close>

definition wf_AudioBuffer :: "AudioBuffer \<Rightarrow> bool" where
  "wf_AudioBuffer buffer \<longleftrightarrow>
     channelData buffer \<noteq> [] \<and> 0 < length_buf buffer
     \<and> list_all (\<lambda>c. length c = length_buf buffer) (channelData buffer)"

text \<open>\<open>buffer.getChannelData(ch)\<close> throws IndexSizeError when there is no channel \<open>ch\<close>.\<close>

definition getChannelData :: "AudioBuffer \<Rightarrow> nat \<Rightarrow> jsnum list option" where
  "getChannelData buffer ch =
     (if ch < numberOfChannels buffer then Some (channelData buffer ! ch) else None)"

text \<open>
  \<open>new OfflineAudioContext(channels, length, sampleRate)\<close> throws NotSupportedError when
  the channel count or the length is zero, and so does \<open>ctx.createBuffer\<close>, which otherwise
  returns a buffer of zeros. Both accept the sample rate of an existing buffer. Web Audio
  also bounds the channel count from above, by no less than 32.
\<close>

definition newOfflineAudioContext :: "nat \<Rightarrow> nat \<Rightarrow> nat \<Rightarrow> unit option" where
  "newOfflineAudioContext channels len rate = (if channels = 0 \<or> len = 0 then None else Some ())"

definition createBuffer :: "nat \<Rightarrow> nat \<Rightarrow> nat \<Rightarrow> AudioBuffer option" where
  "createBuffer channels len rate =
     (if channels = 0 \<or> len = 0 then None
      else Some \<lparr> length_buf = len, sampleRate_buf = rate,
                  channelData = replicate channels (replicate len (Num 0)) \<rparr>)"

text \<open>
  \<open>for (i = 0; i < src.length; i++) dst[i] += src[i]\<close>: the sum is a double, the store
  rounds it to Float32, and a write past the end of a typed array is ignored.
\<close>

definition add_into :: "jsnum list \<Rightarrow> jsnum list \<Rightarrow> jsnum list" where
  "add_into dst src =
     map (\<lambda>i. if i < length src then fround (double_add (dst ! i) (src ! i)) else dst ! i)
       [0..<length dst]"

fun downmix_loop :: "AudioBuffer \<Rightarrow> nat list \<Rightarrow> jsnum list \<Rightarrow> jsnum list option" where
  "downmix_loop buffer [] dst = Some dst"
| "downmix_loop buffer (ch # chs) dst =
     do { src \<leftarrow> getChannelData buffer ch; downmix_loop buffer chs (add_into dst src) }"

text \<open>\<open>dst.set(src)\<close> copies \<open>src\<close> to the start of \<open>dst\<close> and throws RangeError when it does not fit.\<close>

definition typed_set :: "'a list \<Rightarrow> 'a list \<Rightarrow> 'a list option" where
  "typed_set dst src = (if length src \<le> length dst then Some (src @ drop (length src) dst) else None)"

text \<open>
  The first \<open>if\<close> of toTargetChannels has an empty body. The channel arrays that
  \<open>out.getChannelData\<close> returns are views on \<open>out\<close>, so writing them writes the buffer.
  \<open>dst[i] *= inv\<close> multiplies as doubles and stores the product rounded to Float32.
\<close>

definition toTargetChannels :: "AudioBuffer \<Rightarrow> nat \<Rightarrow> AudioBuffer option" where
  "toTargetChannels buffer channels =
     do {
       ctx \<leftarrow> newOfflineAudioContext channels (length_buf buffer) (sampleRate_buf buffer);
       out \<leftarrow> createBuffer channels (length_buf buffer) (sampleRate_buf buffer);
       if channels = 1 then
         do {
           dst0 \<leftarrow> getChannelData out 0;
           dst \<leftarrow> downmix_loop buffer [0..<numberOfChannels buffer] (replicate (length dst0) (Num 0));
           let inv = double_recip (numberOfChannels buffer);
           Some (out\<lparr>channelData := (channelData out)[0 := map (\<lambda>x. fround (double_mul x inv)) dst]\<rparr>)
         }
       else
         do {
           left \<leftarrow> getChannelData out 0;
           right \<leftarrow> getChannelData out 1;
           if numberOfChannels buffer = 1 then
             do {
               src \<leftarrow> getChannelData buffer 0;
               left' \<leftarrow> typed_set left src;
               right' \<leftarrow> typed_set right src;
               Some (out\<lparr>channelData := (channelData out)[0 := left', 1 := right']\<rparr>)
             }
           else
             do {
               src0 \<leftarrow> getChannelData buffer 0;
               left' \<leftarrow> typed_set left src0;
               src1 \<leftarrow> getChannelData buffer 1;
               right' \<leftarrow> typed_set right src1;
               Some (out\<lparr>channelData := (channelData out)[0 := left', 1 := right']\<rparr>)
             }
         }
     }"

subsection \<open>Example buffers for the remixer\<close>



subsection \<open>Interleaving (exportWav.ts, interleavePcm16)\<close>

text \<open>Reading a Float32Array outside its range gives \<open>undefined\<close>, which arithmetic turns into NaN.\<close>

definition sample_at :: "jsnum list \<Rightarrow> nat \<Rightarrow> jsnum" where
  "sample_at c i = (if i < length c then c ! i else NaN)"

text \<open>A store into an Int16Array keeps the low 16 bits, read as a signed value.\<close>

definition Int16_store :: "int \<Rightarrow> int" where
  "Int16_store v = (v + 32768) mod 65536 - 32768"

text \<open>The type of \<open>channels\<close> is \<open>1 | 2\<close>: the branch after \<open>channels === 1\<close> is the stereo one.\<close>

definition interleavePcm16 :: "AudioBuffer \<Rightarrow> nat \<Rightarrow> int list option" where
  "interleavePcm16 buffer channels =
     (let frames = length_buf buffer in
      if channels = 1 then
        do {
          ch0 \<leftarrow> getChannelData buffer 0;
          Some (map (\<lambda>i. Int16_store (clampInt16 (sample_at ch0 i))) [0..<frames])
        }
      else
        do {
          l \<leftarrow> getChannelData buffer 0;
          r \<leftarrow> getChannelData buffer 1;
          Some (concat (map (\<lambda>i. [Int16_store (clampInt16 (sample_at l i)),
                                    Int16_store (clampInt16 (sample_at r i))]) [0..<frames]))
        })"

section \<open>Chunk builders (exportWav.ts)\<close>

subsection \<open>The TNGE metadata as JSON text\<close>

text \<open>
  \<open>JSON.stringify\<close> prints an integer below \<open>10^21\<close> in decimal, and the keys of an object
  in the order they were written.
\<close>

definition digit_char :: "nat \<Rightarrow> char" where
  "digit_char d = char_of (48 + d)"

function show_nat :: "nat \<Rightarrow> string" where
  "show_nat n = (if n < 10 then [digit_char n] else show_nat (n div 10) @ [digit_char (n mod 10)])"
  by pat_completeness auto
termination
  by (relation "measure id") auto

declare show_nat.simps [simp del]

definition show_int :: "int \<Rightarrow> string" where
  "show_int i = (if i < 0 then ''-'' @ show_nat (nat (- i)) else show_nat (nat i))"

definition region_json :: "AcDryRegion \<Rightarrow> string" where
  \<open>region_json r =
     ''{"sample.start":'' @ show_int (sample_start r)
     @ '',"sample.end":'' @ show_int (sample_end r)
     @ '',"sample.lokey":'' @ show_int (sample_lokey r)
     @ '',"sample.hikey":'' @ show_int (sample_hikey r)
     @ '',"sound.rootnote":'' @ show_int (sound_rootnote r)
     @ '',"sound.loopstart":-1,"sound.loopend":-1}''\<close>

fun join_commas :: "string list \<Rightarrow> string" where
  "join_commas [] = []"
| "join_commas [s] = s"
| "join_commas (s # t # ss) = s @ '','' @ join_commas (t # ss)"

definition tnge_json :: "AcDryRegion list \<Rightarrow> string" where
  \<open>tnge_json regions =
     ''{"sound.playmode":"key","sound.rootnote":'' @ show_int 60
     @ '',"sound.pitch":0,"sound.pan":0,"sound.amplitude":100''
     @ '',"envelope.attack":0,"envelope.release":0,"time.mode":"off","sample.mode":"multi"''
     @ '',"regions":['' @ join_commas (map region_json regions) @ '']}''\<close>

subsection \<open>buildListChunkTnge\<close>

text \<open>The encoded text is ASCII, so \<open>TextEncoder\<close> gives one byte per character.\<close>

definition buildListChunkTnge :: "AcDryRegion list \<Rightarrow> byte list option" where
  "buildListChunkTnge regions =
     (let tngeJson = ascii (tnge_json regions @ [CHR 0x00]);
          infoLenNoPad = 4 + 4 + 4 + length tngeJson;
          infoPad = (if infoLenNoPad mod 2 = 0 then 0 else 1 :: nat);
          infoLen = infoLenNoPad + infoPad;
          listChunkSize = infoLen;
          out = replicate (8 + listChunkSize) 0
      in do {
        let out = writeAsciiTo out 0 ''LIST'';
        out \<leftarrow> setUint32 out 4 (int listChunkSize);
        let p = 8;
        let out = writeAsciiTo out p ''INFO'';
        let p = p + 4;
        let out = writeAsciiTo out p ''TNGE'';
        let p = p + 4;
        out \<leftarrow> setUint32 out p (int (length tngeJson));
        let p = p + 4;
        out \<leftarrow> set_at out tngeJson p;
        let p = p + length tngeJson;
        Some (if infoPad \<noteq> 0 then out[p := 0] else out)
      })"

subsection \<open>buildSmplChunk\<close>

text \<open>
  The sample period is \<open>Math.floor((1 / sampleRate) * 1e9)\<close>, computed here on reals: the
  two roundings of the double arithmetic are not modelled.
\<close>

definition buildSmplChunk :: "nat \<Rightarrow> byte list option" where
  "buildSmplChunk sampleRate =
     (let samplePeriod = (if sampleRate > 0 then \<lfloor>(1 / real sampleRate) * 1000000000\<rfloor> else 0);
          chunkSize = 36;
          out = replicate (8 + chunkSize) 0
      in do {
        let out = writeAsciiTo out 0 ''smpl'';
        out \<leftarrow> setUint32 out 4 (int chunkSize);
        let p = 8;
        out \<leftarrow> setUint32 out p 0;
        let p = p + 4;
        out \<leftarrow> setUint32 out p 0;
        let p = p + 4;
        out \<leftarrow> setUint32 out p samplePeriod;
        let p = p + 4;
        out \<leftarrow> setUint32 out p 60;
        let p = p + 4;
        out \<leftarrow> setUint32 out p 0;
        let p = p + 4;
        out \<leftarrow> setUint32 out p 0;
        let p = p + 4;
        out \<leftarrow> setUint32 out p 0;
        let p = p + 4;
        out \<leftarrow> setUint32 out p 0;
        let p = p + 4;
        out \<leftarrow> setUint32 out p 0;
        Some out
      })"

subsection \<open>buildFmtChunkPcm\<close>

text \<open>
  \<open>bitsPerSample / 8\<close> is a division of numbers; the setters cut a fractional value
  towards zero before reducing it.
\<close>

definition buildFmtChunkPcm :: "nat \<Rightarrow> nat \<Rightarrow> nat \<Rightarrow> byte list option" where
  "buildFmtChunkPcm channels sampleRate bitsPerSample =
     (let chunkSize = 16;
          out = replicate (8 + chunkSize) 0;
          bytesPerSample = real bitsPerSample / 8;
          blockAlign = real channels * bytesPerSample;
          byteRate = real sampleRate * blockAlign
      in do {
        let out = writeAsciiTo out 0 ''fmt '';
        out \<leftarrow> setUint32 out 4 (int chunkSize);
        out \<leftarrow> setUint16 out 8 1;
        out \<leftarrow> setUint16 out 10 (int channels);
        out \<leftarrow> setUint32 out 12 (int sampleRate);
        out \<leftarrow> setUint32 out 16 (truncate_real byteRate);
        out \<leftarrow> setUint16 out 20 (truncate_real blockAlign);
        out \<leftarrow> setUint16 out 22 (int bitsPerSample);
        Some out
      })"

subsection \<open>buildDataChunk\<close>

text \<open>
  \<open>pcm\<close> is the content of an Int16Array. \<open>new Uint8Array(pcm.buffer)\<close> is its bytes, two per
  element, low byte first on the little-endian machines the program runs on.
\<close>

definition int16_bytes :: "int \<Rightarrow> byte list" where
  "int16_bytes v = [word_of_int v, word_of_int (v div 256)]"

definition pcm_bytes :: "int list \<Rightarrow> byte list" where
  "pcm_bytes pcm = concat (map int16_bytes pcm)"

definition buildDataChunk :: "int list \<Rightarrow> byte list option" where
  "buildDataChunk pcm =
     (let dataBytes = 2 * length pcm;
          pad = (if dataBytes mod 2 = 0 then 0 else 1 :: nat);
          out = replicate (8 + dataBytes + pad) 0
      in do {
        let out = writeAsciiTo out 0 ''data'';
        out \<leftarrow> setUint32 out 4 (int (dataBytes + pad));
        out \<leftarrow> set_at out (pcm_bytes pcm) 8;
        Some (if pad \<noteq> 0 then out[length out - 1 := 0] else out)
      })"

subsection \<open>The payload of the LIST chunk\<close>

text \<open>
  What buildListChunkTnge writes after the eight bytes of tag and size and before the pad
  byte: \<open>INFO\<close>, \<open>TNGE\<close>, the length of the JSON text with its NUL, and that text.
\<close>

definition list_payload :: "AcDryRegion list \<Rightarrow> byte list" where
  "list_payload regions =
     ascii ''INFO'' @ ascii ''TNGE'' @ u32le (int (length (tnge_json regions @ [CHR 0x00])))
     @ ascii (tnge_json regions @ [CHR 0x00])"

section \<open>Kit encoder (exportWav.ts, exportAcDryKitWavPcm16)\<close>

record ExportOptions =
  opt_sampleRate :: nat
  opt_channels :: nat

text \<open>
  \<open>decodeToAudioBuffer\<close> and \<open>resample\<close> are calls into Web Audio. An item is given here by
  its note and by the buffer \<open>rs\<close> that these two calls return for its file at the sample rate
  of the options.
\<close>

type_synonym kit_item = "int \<times> AudioBuffer"

text \<open>
  The first loop, over \<open>itemsSorted\<close>, with \<open>rendered\<close>, \<open>notes\<close>, \<open>frameLengths\<close> and
  \<open>totalFrames\<close> as the state.
\<close>

fun render_loop ::
  "nat \<Rightarrow> kit_item list \<Rightarrow> AudioBuffer list \<times> int list \<times> int list \<times> nat
     \<Rightarrow> (AudioBuffer list \<times> int list \<times> int list \<times> nat) option" where
  "render_loop channels [] st = Some st"
| "render_loop channels (it # its) st =
     (case st of (rendered, notes, frameLengths, totalFrames) \<Rightarrow>
        do {
          ch \<leftarrow> toTargetChannels (snd it) channels;
          if length_buf ch \<le> 0 then render_loop channels its st
          else render_loop channels its
                 (rendered @ [ch], notes @ [fst it], frameLengths @ [int (length_buf ch)],
                  totalFrames + length_buf ch)
        })"

text \<open>The second loop: \<open>pcm.set(chunk, writePos)\<close> for each rendered buffer.\<close>

fun pcm_loop :: "nat \<Rightarrow> AudioBuffer list \<Rightarrow> int list \<Rightarrow> nat \<Rightarrow> int list option" where
  "pcm_loop channels [] pcm writePos = Some pcm"
| "pcm_loop channels (b # bs) pcm writePos =
     do {
       chunk \<leftarrow> interleavePcm16 b channels;
       pcm \<leftarrow> set_at pcm chunk writePos;
       pcm_loop channels bs pcm (writePos + length chunk)
     }"

text \<open>
  \<open>totalFrames / options.sampleRate\<close>: the quotient rounded to a double; a division by zero
  gives NaN or Infinity.
\<close>

definition js_div :: "nat \<Rightarrow> nat \<Rightarrow> jsnum" where
  "js_div a b = (if b = 0 then (if a = 0 then NaN else PosInf) else round_double (real a / real b))"

text \<open>
  What the encoder has after its first loop. The sort of JavaScript is stable, as
  \<open>sort_key\<close> is.
\<close>

definition kit_render ::
  "kit_item list \<Rightarrow> ExportOptions \<Rightarrow> (AudioBuffer list \<times> int list \<times> int list \<times> nat) option" where
  "kit_render items options =
     (let itemsSorted = sort_key fst items
      in render_loop (opt_channels options) itemsSorted ([], [], [], 0))"

definition exportAcDryKitWavPcm16 :: "kit_item list \<Rightarrow> ExportOptions \<Rightarrow> (byte list \<times> jsnum) option" where
  "exportAcDryKitWavPcm16 items options =
     do {
       (rendered, notes, frameLengths, totalFrames) \<leftarrow> kit_render items options;
       let totalSamples = totalFrames * opt_channels options;
       pcm \<leftarrow> pcm_loop (opt_channels options) rendered (replicate totalSamples 0) 0;
       let regions = buildAcDryRegions notes frameLengths;
       fmtChunk \<leftarrow> buildFmtChunkPcm (opt_channels options) (opt_sampleRate options) 16;
       listChunk \<leftarrow> buildListChunkTnge regions;
       smplChunk \<leftarrow> buildSmplChunk (opt_sampleRate options);
       dataChunk \<leftarrow> buildDataChunk pcm;
       let riffSize = 4 + length fmtChunk + length listChunk + length smplChunk + length dataChunk;
       let fileSize = 8 + riffSize;
       let out = replicate fileSize 0;
       let out = writeAsciiTo out 0 ''RIFF'';
       out \<leftarrow> setUint32 out 4 (int riffSize);
       let out = writeAsciiTo out 8 ''WAVE'';
       let p = 12;
       out \<leftarrow> set_at out fmtChunk p;
       let p = p + length fmtChunk;
       out \<leftarrow> set_at out listChunk p;
       let p = p + length listChunk;
       out \<leftarrow> set_at out smplChunk p;
       let p = p + length smplChunk;
       out \<leftarrow> set_at out dataChunk p;
       let durationSec = js_div totalFrames (opt_sampleRate options);
       Some (out, durationSec)
     }"

subsection \<open>Example options\<close>

definition mono_44100 :: ExportOptions where
  "mono_44100 = \<lparr> opt_sampleRate = 44100, opt_channels = 1 \<rparr>"

text \<open>The text that \<open>JSON.stringify\<close> gives for the metadata of a kit without regions.\<close>

definition json_no_regions :: string where
  \<open>json_no_regions =
     ''{"sound.playmode":"key","sound.rootnote":60,"sound.pitch":0,"sound.pan":0,''
     @ ''"sound.amplitude":100,"envelope.attack":0,"envelope.release":0,''
     @ ''"time.mode":"off","sample.mode":"multi","regions":[]}''\<close>

section \<open>WAV header parser (readWavInfo)\<close>

text \<open>
  The DataView reads of the parser, little endian. Each read the parser makes is guarded:
  the header reads by the length test and the loop condition, the reads in a \<open>fmt \<close> chunk
  by \<open>chunkSize >= 16\<close> together with the test that the chunk ends inside the buffer. So
  no read is out of range and none throws RangeError.
\<close>

definition getUint8 :: "byte list \<Rightarrow> nat \<Rightarrow> nat" where
  "getUint8 view offset = unat (view ! offset)"

definition getUint16 :: "byte list \<Rightarrow> nat \<Rightarrow> nat" where
  "getUint16 view offset = getUint8 view offset + 256 * getUint8 view (offset + 1)"

definition getUint32 :: "byte list \<Rightarrow> nat \<Rightarrow> nat" where
  "getUint32 view offset =
     getUint8 view offset + 256 * getUint8 view (offset + 1)
     + 65536 * getUint8 view (offset + 2) + 16777216 * getUint8 view (offset + 3)"

definition readAscii4 :: "byte list \<Rightarrow> nat \<Rightarrow> string" where
  "readAscii4 view offset =
     [char_of (getUint8 view offset), char_of (getUint8 view (offset + 1)),
      char_of (getUint8 view (offset + 2)), char_of (getUint8 view (offset + 3))]"

datatype wav_error = FileTooSmall | InvalidRiffWaveHeader | MissingFmtOrData | InvalidByteRate

record WavInfo =
  info_channels :: nat
  info_sampleRate :: nat
  info_bitsPerSample :: nat
  info_dataBytes :: nat
  info_durationSec :: real

text \<open>
  The body of the scanning loop after the truncation test: what one chunk does to
  \<open>(channels, sampleRate, bitsPerSample, dataBytes)\<close>.
\<close>

definition chunk_update ::
  "byte list \<Rightarrow> string \<Rightarrow> nat \<Rightarrow> nat \<Rightarrow> nat \<times> nat \<times> nat \<times> nat \<Rightarrow> nat \<times> nat \<times> nat \<times> nat" where
  "chunk_update view chunkId chunkSize chunkDataOffset st =
     (case st of (channels, sampleRate, bitsPerSample, dataBytes) \<Rightarrow>
        if chunkId = ''fmt '' then
          (if chunkSize \<ge> 16 then
             (getUint16 view (chunkDataOffset + 2), getUint32 view (chunkDataOffset + 4),
              getUint16 view (chunkDataOffset + 14), dataBytes)
           else st)
        else if chunkId = ''data'' then (channels, sampleRate, bitsPerSample, chunkSize)
        else st)"

text \<open>The \<open>while (offset + 8 <= view.byteLength)\<close> loop; \<open>break\<close> returns what was found so far.\<close>

function scan :: "byte list \<Rightarrow> nat \<Rightarrow> nat \<times> nat \<times> nat \<times> nat \<Rightarrow> nat \<times> nat \<times> nat \<times> nat" where
  "scan view offset st =
     (if offset + 8 \<le> length view then
        (if offset + 8 + getUint32 view (offset + 4) > length view then st
         else scan view
                (offset + 8 + getUint32 view (offset + 4) + getUint32 view (offset + 4) mod 2)
                (chunk_update view (readAscii4 view offset) (getUint32 view (offset + 4)) (offset + 8) st))
      else st)"
  by pat_completeness auto
termination
  by (relation "measure (\<lambda>(view, offset, st). length view - offset)") auto

declare scan.simps [simp del]

text \<open>
  The same loop, recording instead the chunks it processes, each as
  \<open>(chunkId, chunkSize, chunkDataOffset)\<close>.
\<close>

function chunk_walk :: "byte list \<Rightarrow> nat \<Rightarrow> (string \<times> nat \<times> nat) list" where
  "chunk_walk view offset =
     (if offset + 8 \<le> length view then
        (if offset + 8 + getUint32 view (offset + 4) > length view then []
         else (readAscii4 view offset, getUint32 view (offset + 4), offset + 8)
              # chunk_walk view
                  (offset + 8 + getUint32 view (offset + 4) + getUint32 view (offset + 4) mod 2))
      else [])"
  by pat_completeness auto
termination
  by (relation "measure (\<lambda>(view, offset). length view - offset)") auto

declare chunk_walk.simps [simp del]

text \<open>
  \<open>byteRate\<close> is a product of non-negative integers below \<open>2^32\<close> and an eighth of one, so
  it is always finite; only the test \<open>byteRate <= 0\<close> is left of the last check.
\<close>

definition readWavInfo :: "byte list \<Rightarrow> wav_error + WavInfo" where
  "readWavInfo buf =
     (if length buf < 12 then Inl FileTooSmall
      else
        let riff = readAscii4 buf 0; wave = readAscii4 buf 8 in
        if riff \<noteq> ''RIFF'' \<or> wave \<noteq> ''WAVE'' then Inl InvalidRiffWaveHeader
        else
          case scan buf 12 (0, 0, 0, 0) of (channels, sampleRate, bitsPerSample, dataBytes) \<Rightarrow>
            if channels = 0 \<or> sampleRate = 0 \<or> bitsPerSample = 0 \<or> dataBytes = 0
            then Inl MissingFmtOrData
            else
              let bytesPerSample = real bitsPerSample / 8;
                  byteRate = real sampleRate * real channels * bytesPerSample
              in if byteRate \<le> 0 then Inl InvalidByteRate
                 else Inr \<lparr> info_channels = channels, info_sampleRate = sampleRate,
                            info_bitsPerSample = bitsPerSample, info_dataBytes = dataBytes,
                            info_durationSec = real dataBytes / byteRate \<rparr>)"

text \<open>The chunks that set fields: a \<open>fmt \<close> chunk of at least 16 bytes, and a \<open>data\<close> chunk.\<close>

definition is_fmt16 :: "string \<times> nat \<times> nat \<Rightarrow> bool" where
  "is_fmt16 c \<longleftrightarrow> fst c = ''fmt '' \<and> fst (snd c) \<ge> 16"

definition is_data :: "string \<times> nat \<times> nat \<Rightarrow> bool" where
  "is_data c \<longleftrightarrow> fst c = ''data''"

subsection \<open>Example buffers\<close>

text \<open>
  A stereo 44100 Hz 16-bit file with four bytes of data, followed by a chunk header that
  declares 100 bytes where only two are left.
\<close>

definition wav_truncated :: "byte list" where
  "wav_truncated =
     ascii ''RIFF'' @ [50, 0, 0, 0] @ ascii ''WAVE''
     @ ascii ''fmt '' @ [16, 0, 0, 0] @ [1, 0, 2, 0, 0x44, 0xAC, 0, 0, 0x10, 0xB1, 2, 0, 4, 0, 16, 0]
     @ ascii ''data'' @ [4, 0, 0, 0] @ [1, 2, 3, 4]
     @ ascii ''junk'' @ [100, 0, 0, 0] @ [1, 2]"

text \<open>
  The same format chunk, then a second \<open>fmt \<close> chunk of 14 bytes that announces one
  channel at 8000 Hz, then the data chunk.
\<close>

definition wav_two_fmt :: "byte list" where
  "wav_two_fmt =
     ascii ''RIFF'' @ [62, 0, 0, 0] @ ascii ''WAVE''
     @ ascii ''fmt '' @ [16, 0, 0, 0] @ [1, 0, 2, 0, 0x44, 0xAC, 0, 0, 0x10, 0xB1, 2, 0, 4, 0, 16, 0]
     @ ascii ''fmt '' @ [14, 0, 0, 0] @ [1, 0, 1, 0, 0x40, 0x1F, 0, 0, 0x40, 0x1F, 0, 0, 1, 0]
     @ ascii ''data'' @ [4, 0, 0, 0] @ [1, 2, 3, 4]"

text \<open>Two \<open>fmt \<close> chunks of 16 bytes (stereo 44100 Hz, then mono 8000 Hz) and two data chunks.\<close>

definition wav_repeated :: "byte list" where
  "wav_repeated =
     ascii ''RIFF'' @ [74, 0, 0, 0] @ ascii ''WAVE''
     @ ascii ''fmt '' @ [16, 0, 0, 0] @ [1, 0, 2, 0, 0x44, 0xAC, 0, 0, 0x10, 0xB1, 2, 0, 4, 0, 16, 0]
     @ ascii ''data'' @ [4, 0, 0, 0] @ [1, 2, 3, 4]
     @ ascii ''fmt '' @ [16, 0, 0, 0] @ [1, 0, 1, 0, 0x40, 0x1F, 0, 0, 0x40, 0x1F, 0, 0, 1, 0, 8, 0]
     @ ascii ''data'' @ [2, 0, 0, 0] @ [5, 6]"

section \<open>Properties of the region mapper\<close>

lemma length_boundaries: "ns \<noteq> [] \<Longrightarrow> length (boundaries ns) = length ns + 1"
proof -
  assume "ns \<noteq> []"
  then have "0 < length ns" by simp
  then show ?thesis unfolding boundaries_def by simp
qed

lemma boundaries_0: "boundaries ns ! 0 = 0"
  by (simp add: boundaries_def)

lemma boundaries_mid:
  assumes "1 \<le> i" "i < length ns"
  shows "boundaries ns ! i = (ns ! (i - 1) + ns ! i + 1) div 2"
proof -
  obtain j where j: "i = Suc j" using assms(1) by (cases i) auto
  have "j < length ns - 1" using assms(2) j by simp
  then show ?thesis
    using j by (simp add: boundaries_def nth_append)
qed

lemma boundaries_last:
  assumes "ns \<noteq> []"
  shows "boundaries ns ! length ns = 127"
proof -
  obtain j where j: "length ns = Suc j" using assms by (cases ns) auto
  then show ?thesis
    by (simp add: boundaries_def nth_append)
qed

text \<open>The loop makes one region for each visited index with a positive frame count.\<close>

lemma regions_loop_keys_filter:
  "map (\<lambda>r. (sample_lokey r, sample_hikey r, sound_rootnote r)) (regions_loop ns fs bs is cur)
     = map (\<lambda>i. (nth_or bs i 0, nth_or bs (i + 1) 127, ns ! i)) (filter (\<lambda>i. 0 < nth_or fs i 0) is)"
  by (induction "is" arbitrary: cur) (simp_all add: Let_def)

lemma buildAcDryRegions_keys_filter:
  "map (\<lambda>r. (sample_lokey r, sample_hikey r, sound_rootnote r)) (buildAcDryRegions ns fs)
     = map (\<lambda>i. (boundaries ns ! i, boundaries ns ! (i + 1), ns ! i))
         (filter (\<lambda>i. 0 < nth_or fs i 0) [0..<length ns])"
proof (cases "ns = []")
  case True
  then show ?thesis by (simp add: buildAcDryRegions_def)
next
  case False
  have "map (\<lambda>i. (nth_or (boundaries ns) i 0, nth_or (boundaries ns) (i + 1) 127, ns ! i))
          (filter (\<lambda>i. 0 < nth_or fs i 0) [0..<length ns])
      = map (\<lambda>i. (boundaries ns ! i, boundaries ns ! (i + 1), ns ! i))
          (filter (\<lambda>i. 0 < nth_or fs i 0) [0..<length ns])"
    using False by (simp add: nth_or_def length_boundaries)
  then show ?thesis
    using False by (simp add: buildAcDryRegions_def regions_loop_keys_filter)
qed

text \<open>When every visited index has a positive frame count, the loop makes one region per index.\<close>

lemma regions_loop_keys:
  assumes "\<forall>i \<in> set is. 0 < nth_or fs i 0"
  shows "map (\<lambda>r. (sample_lokey r, sample_hikey r, sound_rootnote r)) (regions_loop ns fs bs is cur)
       = map (\<lambda>i. (nth_or bs i 0, nth_or bs (i + 1) 127, ns ! i)) is"
  using assms by (induction "is" arbitrary: cur) (simp_all add: Let_def)

lemma buildAcDryRegions_keys:
  assumes "length fs = length ns" "\<forall>f \<in> set fs. 0 < f"
  shows "map (\<lambda>r. (sample_lokey r, sample_hikey r, sound_rootnote r)) (buildAcDryRegions ns fs)
       = map (\<lambda>i. (boundaries ns ! i, boundaries ns ! (i + 1), ns ! i)) [0..<length ns]"
proof (cases "ns = []")
  case True
  then show ?thesis by (simp add: buildAcDryRegions_def)
next
  case False
  have pos: "\<forall>i \<in> set [0..<length ns]. 0 < nth_or fs i 0"
    using assms by (simp add: nth_or_def)
  have "map (\<lambda>i. (nth_or (boundaries ns) i 0, nth_or (boundaries ns) (i + 1) 127, ns ! i)) [0..<length ns]
      = map (\<lambda>i. (boundaries ns ! i, boundaries ns ! (i + 1), ns ! i)) [0..<length ns]"
    using False by (simp add: nth_or_def length_boundaries)
  with regions_loop_keys [OF pos, of ns "boundaries ns" 0] False show ?thesis
    by (simp add: buildAcDryRegions_def)
qed

lemma buildAcDryRegions_nth:
  assumes "length fs = length ns" "\<forall>f \<in> set fs. 0 < f" "i < length ns"
  shows "length (buildAcDryRegions ns fs) = length ns"
    and "sample_lokey (buildAcDryRegions ns fs ! i) = boundaries ns ! i"
    and "sample_hikey (buildAcDryRegions ns fs ! i) = boundaries ns ! (i + 1)"
    and "sound_rootnote (buildAcDryRegions ns fs ! i) = ns ! i"
proof -
  let ?k = "\<lambda>r. (sample_lokey r, sample_hikey r, sound_rootnote r)"
  have eq: "map ?k (buildAcDryRegions ns fs)
          = map (\<lambda>i. (boundaries ns ! i, boundaries ns ! (i + 1), ns ! i)) [0..<length ns]"
    by (rule buildAcDryRegions_keys [OF assms(1,2)])
  from arg_cong [OF eq, of length] show len: "length (buildAcDryRegions ns fs) = length ns"
    by simp
  from arg_cong [OF eq, of "\<lambda>xs. xs ! i"] len assms(3)
  have "?k (buildAcDryRegions ns fs ! i) = (boundaries ns ! i, boundaries ns ! (i + 1), ns ! i)"
    by simp
  then show "sample_lokey (buildAcDryRegions ns fs ! i) = boundaries ns ! i"
    and "sample_hikey (buildAcDryRegions ns fs ! i) = boundaries ns ! (i + 1)"
    and "sound_rootnote (buildAcDryRegions ns fs ! i) = ns ! i"
    by simp_all
qed

lemma between_steps:
  fixes f :: "nat \<Rightarrow> int"
  shows "0 < n \<Longrightarrow> f 0 \<le> k \<Longrightarrow> k \<le> f n \<Longrightarrow> \<exists>i<n. f i \<le> k \<and> k \<le> f (Suc i)"
proof (induction n)
  case 0
  then show ?case by simp
next
  case (Suc n)
  show ?case
  proof (cases "f n \<le> k")
    case True
    with Suc.prems show ?thesis by auto
  next
    case False
    then have kn: "k \<le> f n" by simp
    have "0 < n" using False Suc.prems(2) by (cases n) auto
    from Suc.IH [OF this Suc.prems(2) kn] obtain i where "i < n" "f i \<le> k" "k \<le> f (Suc i)" by blast
    then show ?thesis by (auto intro: exI [of _ i])
  qed
qed

lemma midpoint_bounds:
  fixes a b :: int
  assumes "a < b"
  shows "a < (a + b + 1) div 2" "(a + b + 1) div 2 \<le> b"
  using assms by presburger+

lemma boundaries_mid_bounds:
  assumes "sorted_wrt (<) ns" "1 \<le> i" "i < length ns"
  shows "ns ! (i - 1) < boundaries ns ! i" "boundaries ns ! i \<le> ns ! i"
proof -
  have "ns ! (i - 1) < ns ! i"
    using assms by (simp add: sorted_wrt_nth_less)
  then show "ns ! (i - 1) < boundaries ns ! i" "boundaries ns ! i \<le> ns ! i"
    using midpoint_bounds [of "ns ! (i - 1)" "ns ! i"] boundaries_mid [OF assms(2,3)] by simp_all
qed

lemma boundaries_low:
  assumes "sorted_wrt (<) ns" "\<forall>n \<in> set ns. 0 \<le> n \<and> n \<le> 127" "i < length ns"
  shows "0 \<le> boundaries ns ! i" "boundaries ns ! i \<le> ns ! i"
proof -
  show "0 \<le> boundaries ns ! i"
  proof (cases i)
    case 0
    then show ?thesis by (simp add: boundaries_0)
  next
    case (Suc j)
    then have "ns ! j < boundaries ns ! i"
      using boundaries_mid_bounds(1) [OF assms(1) _ assms(3)] by simp
    moreover have "0 \<le> ns ! j" using assms(2,3) Suc by simp
    ultimately show ?thesis by simp
  qed
  show "boundaries ns ! i \<le> ns ! i"
  proof (cases i)
    case 0
    then show ?thesis using assms(2,3) by (simp add: boundaries_0)
  next
    case (Suc j)
    then show ?thesis
      using boundaries_mid_bounds(2) [OF assms(1) _ assms(3)] by simp
  qed
qed

lemma boundaries_high:
  assumes "sorted_wrt (<) ns" "\<forall>n \<in> set ns. 0 \<le> n \<and> n \<le> 127" "i < length ns"
  shows "ns ! i \<le> boundaries ns ! (i + 1)" "boundaries ns ! (i + 1) \<le> 127"
    and "i + 1 < length ns \<Longrightarrow> ns ! i < boundaries ns ! (i + 1)"
proof -
  have ne: "ns \<noteq> []" using assms(3) by auto
  show strict: "ns ! i < boundaries ns ! (i + 1)" if "i + 1 < length ns"
    using boundaries_mid_bounds(1) [OF assms(1) _ that] by simp
  show "ns ! i \<le> boundaries ns ! (i + 1)"
  proof (cases "i + 1 < length ns")
    case True
    then show ?thesis using strict by simp
  next
    case False
    then have "i + 1 = length ns" using assms(3) by simp
    then show ?thesis using boundaries_last [OF ne] assms(2,3) by simp
  qed
  show "boundaries ns ! (i + 1) \<le> 127"
  proof (cases "i + 1 < length ns")
    case True
    then have "boundaries ns ! (i + 1) \<le> ns ! (i + 1)"
      using boundaries_mid_bounds(2) [OF assms(1) _ True] by simp
    moreover have "ns ! (i + 1) \<le> 127" using assms(2) True by simp
    ultimately show ?thesis by simp
  next
    case False
    then have "i + 1 = length ns" using assms(3) by simp
    then show ?thesis using boundaries_last [OF ne] by simp
  qed
qed

text \<open>
  Claim C6. For a non-empty note list of length \<open>n\<close> the boundary list has \<open>n + 1\<close> entries: 0 first,
  then \<open>floor((prev + cur + 1) / 2)\<close> for each adjacent pair of notes, and 127 last. The
  regions are those of the indices \<open>i\<close> with a positive frame count, in order, each with the
  key range \<open>[boundaries[i], boundaries[i + 1]]\<close> and the root note \<open>notes[i]\<close>; when every
  frame count is positive, region \<open>i\<close> is the one of note \<open>i\<close>. For the notes \<open>[60, 64, 67]\<close>
  the boundaries are \<open>[0, 62, 66, 127]\<close>.
\<close>

theorem boundaries_spec:
  assumes "sortedNotes \<noteq> []"
  shows "length (boundaries sortedNotes) = length sortedNotes + 1
       \<and> boundaries sortedNotes ! 0 = 0
       \<and> (\<forall>i. 1 \<le> i \<and> i < length sortedNotes \<longrightarrow>
             boundaries sortedNotes ! i = (sortedNotes ! (i - 1) + sortedNotes ! i + 1) div 2)
       \<and> boundaries sortedNotes ! length sortedNotes = 127
       \<and> map (\<lambda>r. (sample_lokey r, sample_hikey r, sound_rootnote r))
             (buildAcDryRegions sortedNotes frameLengths)
           = map (\<lambda>i. (boundaries sortedNotes ! i, boundaries sortedNotes ! (i + 1), sortedNotes ! i))
               (filter (\<lambda>i. 0 < nth_or frameLengths i 0) [0..<length sortedNotes])
       \<and> (length frameLengths = length sortedNotes \<and> (\<forall>f \<in> set frameLengths. 0 < f) \<longrightarrow>
             length (buildAcDryRegions sortedNotes frameLengths) = length sortedNotes
           \<and> (\<forall>i < length sortedNotes.
                 sample_lokey (buildAcDryRegions sortedNotes frameLengths ! i) = boundaries sortedNotes ! i
               \<and> sample_hikey (buildAcDryRegions sortedNotes frameLengths ! i) = boundaries sortedNotes ! (i + 1)
               \<and> sound_rootnote (buildAcDryRegions sortedNotes frameLengths ! i) = sortedNotes ! i))
       \<and> boundaries [60, 64, 67] = [0, 62, 66, 127]"
proof -
  have n: "0 < length sortedNotes" using assms(1) by simp
  have ex: "boundaries [60, 64, 67] = [0, 62, 66, 127]"
    by (simp add: boundaries_def upt_rec)
  have indexed: "length (buildAcDryRegions sortedNotes frameLengths) = length sortedNotes
           \<and> (\<forall>i < length sortedNotes.
                 sample_lokey (buildAcDryRegions sortedNotes frameLengths ! i) = boundaries sortedNotes ! i
               \<and> sample_hikey (buildAcDryRegions sortedNotes frameLengths ! i) = boundaries sortedNotes ! (i + 1)
               \<and> sound_rootnote (buildAcDryRegions sortedNotes frameLengths ! i) = sortedNotes ! i)"
    if "length frameLengths = length sortedNotes" "\<forall>f \<in> set frameLengths. 0 < f"
    using buildAcDryRegions_nth [OF that] n by auto
  show ?thesis
    using length_boundaries [OF assms(1)] boundaries_0 [of sortedNotes] boundaries_last [OF assms(1)]
      boundaries_mid [of _ sortedNotes] buildAcDryRegions_keys_filter [of sortedNotes frameLengths]
      indexed ex
    by (intro conjI allI impI) simp_all
qed

theorem boundaries_spec_witness:
  "map sample_lokey (buildAcDryRegions [60, 64, 67] [22050, 11025, 5]) = [0, 62, 66]
   \<and> sample_hikey (buildAcDryRegions [60, 64, 67] [22050, 11025, 5] ! 2) = 127
   \<and> length (boundaries [60, 64, 67]) = 4"
  using boundaries_spec [of "[60, 64, 67]" "[22050, 11025, 5]"]
  by (simp add: buildAcDryRegions_def boundaries_def upt_rec nth_or_def)

text \<open>
  Claim C3, as stated, asks for key ranges without overlaps. The ranges are closed and
  consecutive regions share their boundary key: for the notes \<open>[60, 64, 67]\<close> key 62 lies in
  the range of region 0 and in the range of region 1.
\<close>

theorem key_ranges_overlap_counterexample:
  "(62::int) \<in> key_range (buildAcDryRegions [60, 64, 67] [1, 1, 1] ! 0)
   \<inter> key_range (buildAcDryRegions [60, 64, 67] [1, 1, 1] ! 1)"
  by (simp add: key_range_def buildAcDryRegions_def boundaries_def upt_rec nth_or_def)

text \<open>
  Claim C3, amended. For a non-empty, strictly ascending list of notes in \<open>[0, 127]\<close> with
  positive frame counts, there is one region per note; the first range starts at key 0 and the
  last one ends at key 127; the high key of each region is the low key of the next one, and
  that key is the only one two consecutive ranges share; ranges of regions that are not
  neighbours are disjoint; every root note lies in its own range; and the ranges together
  cover exactly the keys 0 to 127, with no gap.
\<close>

theorem key_ranges_cover:
  assumes "sortedNotes \<noteq> []" "sorted_wrt (<) sortedNotes"
    and "\<forall>n \<in> set sortedNotes. 0 \<le> n \<and> n \<le> 127"
    and "length frameLengths = length sortedNotes" "\<forall>f \<in> set frameLengths. 0 < f"
  shows "length (buildAcDryRegions sortedNotes frameLengths) = length sortedNotes
       \<and> sample_lokey (buildAcDryRegions sortedNotes frameLengths ! 0) = 0
       \<and> sample_hikey (buildAcDryRegions sortedNotes frameLengths ! (length sortedNotes - 1)) = 127
       \<and> (\<forall>i. i + 1 < length sortedNotes \<longrightarrow>
             sample_hikey (buildAcDryRegions sortedNotes frameLengths ! i)
               = sample_lokey (buildAcDryRegions sortedNotes frameLengths ! (i + 1))
           \<and> key_range (buildAcDryRegions sortedNotes frameLengths ! i)
               \<inter> key_range (buildAcDryRegions sortedNotes frameLengths ! (i + 1))
               = {sample_hikey (buildAcDryRegions sortedNotes frameLengths ! i)})
       \<and> (\<forall>i j. i + 1 < j \<and> j < length sortedNotes \<longrightarrow>
             key_range (buildAcDryRegions sortedNotes frameLengths ! i)
               \<inter> key_range (buildAcDryRegions sortedNotes frameLengths ! j) = {})
       \<and> (\<forall>i < length sortedNotes.
             sound_rootnote (buildAcDryRegions sortedNotes frameLengths ! i)
               \<in> key_range (buildAcDryRegions sortedNotes frameLengths ! i))
       \<and> (\<Union>r \<in> set (buildAcDryRegions sortedNotes frameLengths). key_range r) = {0..127}"
proof -
  let ?rs = "buildAcDryRegions sortedNotes frameLengths"
  let ?b = "boundaries sortedNotes"
  let ?n = "length sortedNotes"
  note nth = buildAcDryRegions_nth [OF assms(4,5)]
  note low = boundaries_low [OF assms(2,3)]
  note high = boundaries_high [OF assms(2,3)]
  have n: "0 < ?n" using assms(1) by simp
  have len: "length ?rs = ?n" using nth(1) [OF n] .
  have range: "key_range (?rs ! i) = {?b ! i .. ?b ! (i + 1)}" if "i < ?n" for i
    using nth(2,3) [OF that] by (simp add: key_range_def)
  have first: "sample_lokey (?rs ! 0) = 0"
    using nth(2) [OF n] by (simp add: boundaries_0)
  have last: "sample_hikey (?rs ! (?n - 1)) = 127"
    using nth(3) [of "?n - 1"] n boundaries_last [OF assms(1)] by simp
  have adj: "sample_hikey (?rs ! i) = sample_lokey (?rs ! (i + 1))
           \<and> key_range (?rs ! i) \<inter> key_range (?rs ! (i + 1)) = {sample_hikey (?rs ! i)}"
    if "i + 1 < ?n" for i
  proof -
    have i: "i < ?n" using that by simp
    have "?b ! i \<le> ?b ! (i + 1)" using low(2) [OF i] high(1) [OF i] by simp
    moreover have "?b ! (i + 1) \<le> ?b ! (i + 1 + 1)"
      using low(2) [OF that] high(1) [OF that] by simp
    ultimately have "{?b ! i .. ?b ! (i + 1)} \<inter> {?b ! (i + 1) .. ?b ! (i + 1 + 1)} = {?b ! (i + 1)}"
      by auto
    then show ?thesis
      using range [OF i] range [OF that] nth(3) [OF i] nth(2) [OF that] by simp
  qed
  have far: "key_range (?rs ! i) \<inter> key_range (?rs ! j) = {}" if "i + 1 < j" "j < ?n" for i j
  proof -
    have i: "i < ?n" and i1: "i + 1 < ?n" using that by simp_all
    have "?b ! (i + 1) \<le> sortedNotes ! (i + 1)" using low(2) [OF i1] .
    also have "sortedNotes ! (i + 1) \<le> sortedNotes ! (j - 1)"
    proof (cases "i + 1 = j - 1")
      case True
      then show ?thesis by simp
    next
      case False
      then have "i + 1 < j - 1" using that(1) by simp
      moreover have "j - 1 < length sortedNotes" using that(2) by simp
      ultimately have "sortedNotes ! (i + 1) < sortedNotes ! (j - 1)"
        by (rule sorted_wrt_nth_less [OF assms(2)])
      then show ?thesis by simp
    qed
    also have "sortedNotes ! (j - 1) < ?b ! j"
      using boundaries_mid_bounds(1) [OF assms(2) _ that(2)] that(1) by simp
    finally have "?b ! (i + 1) < ?b ! j" .
    then have "{?b ! i .. ?b ! (i + 1)} \<inter> {?b ! j .. ?b ! (j + 1)} = {}" by auto
    then show ?thesis using range [OF i] range [OF that(2)] by simp
  qed
  have root: "sound_rootnote (?rs ! i) \<in> key_range (?rs ! i)" if "i < ?n" for i
    using range [OF that] nth(4) [OF that] low(2) [OF that] high(1) [OF that] by simp
  have cover: "(\<Union>r \<in> set ?rs. key_range r) = {0..127}"
  proof (intro equalityI subsetI)
    fix k assume "k \<in> (\<Union>r \<in> set ?rs. key_range r)"
    then obtain i where i: "i < ?n" and k: "k \<in> key_range (?rs ! i)"
      using len by (auto simp: in_set_conv_nth)
    then have "?b ! i \<le> k" "k \<le> ?b ! (i + 1)" using range [OF i] by simp_all
    then show "k \<in> {0..127}" using low(1) [OF i] high(2) [OF i] by simp
  next
    fix k :: int assume "k \<in> {0..127}"
    then have "?b ! 0 \<le> k" "k \<le> ?b ! ?n"
      using boundaries_0 [of sortedNotes] boundaries_last [OF assms(1)] by simp_all
    from between_steps [of ?n "\<lambda>i. ?b ! i", OF n this]
    obtain i where i: "i < ?n" and "?b ! i \<le> k" "k \<le> ?b ! Suc i" by blast
    then have "k \<in> key_range (?rs ! i)" using range [OF i] by simp
    moreover have "?rs ! i \<in> set ?rs" using i len by simp
    ultimately show "k \<in> (\<Union>r \<in> set ?rs. key_range r)" by blast
  qed
  show ?thesis
    using len first last adj far root cover by blast
qed

theorem key_ranges_cover_witness:
  "map (\<lambda>r. (sample_lokey r, sample_hikey r)) (buildAcDryRegions [60, 64, 67] [1, 1, 1])
     = [(0, 62), (62, 66), (66, 127)]
   \<and> (\<Union>r \<in> set (buildAcDryRegions [60, 64, 67] [1, 1, 1]). key_range r) = {0..127}"
  using key_ranges_cover [of "[60, 64, 67]" "[1, 1, 1]"]
  by (simp add: buildAcDryRegions_def boundaries_def upt_rec nth_or_def)

section \<open>Properties of the quantizer\<close>

lemma wrap32_small:
  fixes i :: int
  assumes "- (2 ^ 31) \<le> i" "i < 2 ^ 31"
  shows "(let int32bit = i mod 2 ^ 32 in if int32bit \<ge> 2 ^ 31 then int32bit - 2 ^ 32 else int32bit) = i"
proof (cases "0 \<le> i")
  case True
  then have "i mod 2 ^ 32 = i" using assms(2) by simp
  then show ?thesis using assms(2) by (simp add: Let_def)
next
  case False
  then have "0 \<le> i + 2 ^ 32" "i + 2 ^ 32 < 2 ^ 32" using assms(1) by simp_all
  then have "(i + 2 ^ 32) mod 2 ^ 32 = i + 2 ^ 32" by (rule mod_pos_pos_trivial)
  then have "i mod 2 ^ 32 = i + 2 ^ 32" by simp
  then show ?thesis using assms(1) by (simp add: Let_def)
qed

lemma ToInt32_small:
  assumes "- (2 ^ 31) \<le> r" "r < 2 ^ 31"
  shows "ToInt32 (Num r) = truncate_real r"
proof -
  let ?i = "if r < 0 then - \<lfloor>\<bar>r\<bar>\<rfloor> else \<lfloor>\<bar>r\<bar>\<rfloor>"
  have i: "?i = truncate_real r"
    by (simp add: truncate_real_def ceiling_def)
  have "- (2 ^ 31) \<le> truncate_real r"
    using assms(1) by (auto simp: truncate_real_def le_floor_iff le_ceiling_iff)
  moreover have "truncate_real r < 2 ^ 31"
    using assms(2) by (auto simp: truncate_real_def floor_less_iff ceiling_less_iff)
  ultimately show ?thesis
    using wrap32_small [of "truncate_real r"] i by (simp add: Let_def)
qed

lemma clampInt16_Num:
  "clampInt16 (Num r) =
     (if max (- 1) (min 1 r) < 0 then truncate_real (max (- 1) (min 1 r) * 32768)
      else truncate_real (max (- 1) (min 1 r) * 32767))"
proof -
  define c where "c = max (- 1) (min 1 r)"
  have c: "- 1 \<le> c" "c \<le> 1" by (simp_all add: c_def)
  have code: "clampInt16 (Num r) = ToInt32 (if c < 0 then Num (c * 32768) else Num (c * 32767))"
    by (simp add: clampInt16_def Let_def c_def max_def min_def)
  have "- (2 ^ 31) \<le> c * 32768" "c * 32768 < 2 ^ 31" "- (2 ^ 31) \<le> c * 32767" "c * 32767 < 2 ^ 31"
    using c by simp_all
  then have t: "ToInt32 (Num (c * 32768)) = truncate_real (c * 32768)"
    "ToInt32 (Num (c * 32767)) = truncate_real (c * 32767)"
    by (simp_all only: ToInt32_small)
  show ?thesis
    unfolding code c_def [symmetric] by (cases "c < 0") (simp_all only: t if_True if_False)
qed

lemma truncate_real_bounds:
  assumes "of_int a \<le> r" "r \<le> of_int b" "a \<le> 0" "0 \<le> b"
  shows "a \<le> truncate_real r" "truncate_real r \<le> b"
  using assms by (auto simp: truncate_real_def le_floor_iff floor_le_iff le_ceiling_iff ceiling_le_iff)

text \<open>
  Claim C5. For every number \<open>x\<close> clampInt16 returns what the specification's quantizer
  returns: \<open>x\<close> clamped to \<open>[-1, 1]\<close>, scaled by 32768 when negative and by 32767 otherwise,
  truncated towards zero. In particular 1.0 gives 32767, -1.0 gives -32768, 0.0 gives 0,
  2.0 gives 32767 and -2.0 gives -32768.
\<close>

theorem clampInt16_quantize:
  "clampInt16 x = quantize x
   \<and> clampInt16 (Num 1) = 32767 \<and> clampInt16 (Num (- 1)) = - 32768 \<and> clampInt16 (Num 0) = 0
   \<and> clampInt16 (Num 2) = 32767 \<and> clampInt16 (Num (- 2)) = - 32768"
proof -
  have "clampInt16 x = quantize x"
  proof (cases x)
    case (Num r)
    then show ?thesis by (simp only: clampInt16_Num quantize_def Let_def clamp_unit.simps js_lt.simps js_mul.simps truncate_js.simps)
  next
    case PosInf
    then show ?thesis using clampInt16_Num [of 1] by (simp add: clampInt16_def quantize_def)
  next
    case NegInf
    then show ?thesis using clampInt16_Num [of "- 1"] by (simp add: clampInt16_def quantize_def)
  next
    case NaN
    then show ?thesis by (simp add: clampInt16_def quantize_def)
  qed
  moreover have "clampInt16 (Num 1) = 32767" "clampInt16 (Num (- 1)) = - 32768" "clampInt16 (Num 0) = 0"
    "clampInt16 (Num 2) = 32767" "clampInt16 (Num (- 2)) = - 32768"
    by (simp_all add: clampInt16_Num truncate_real_def)
  ultimately show ?thesis by simp
qed

lemma clampInt16_Num_range: "- 32768 \<le> clampInt16 (Num r) \<and> clampInt16 (Num r) \<le> 32767"
proof -
  define c where "c = max (- 1) (min 1 r)"
  have c: "- 1 \<le> c" "c \<le> 1" by (simp_all add: c_def)
  note code = clampInt16_Num [of r, folded c_def]
  show ?thesis
  proof (cases "c < 0")
    case True
    have "of_int (- 32768) \<le> c * 32768" "c * 32768 \<le> of_int 32767" using c True by simp_all
    from truncate_real_bounds [OF this] True show ?thesis unfolding code by simp
  next
    case False
    have "of_int (- 32768) \<le> c * 32767" "c * 32767 \<le> of_int 32767" using c False by simp_all
    from truncate_real_bounds [OF this] False show ?thesis unfolding code by simp
  qed
qed

text \<open>
  Claim C10. clampInt16 is a total function and its result always lies in the int16 range
  \<open>[-32768, 32767]\<close>, for every finite input, for the two infinities and for NaN; NaN, which
  fails both clamp comparisons and the sign test, is mapped to 0.
\<close>

theorem clampInt16_total_int16:
  "- 32768 \<le> clampInt16 x \<and> clampInt16 x \<le> 32767
   \<and> clampInt16 NaN = 0 \<and> clampInt16 PosInf = 32767 \<and> clampInt16 NegInf = - 32768"
proof -
  have inf: "clampInt16 PosInf = 32767" "clampInt16 NegInf = - 32768"
    using clampInt16_Num [of 1] clampInt16_Num [of "- 1"]
    by (simp_all add: clampInt16_def truncate_real_def)
  have nan: "clampInt16 NaN = 0" by (simp add: clampInt16_def)
  have "- 32768 \<le> clampInt16 x \<and> clampInt16 x \<le> 32767"
    using clampInt16_Num_range inf nan by (cases x) simp_all
  with inf nan show ?thesis by simp
qed

section \<open>Properties of the rounding\<close>

text \<open>The bisection returns an exponent of the range, and the one that brackets \<open>a\<close>.\<close>

lemma exponent_search_range:
  "lo < hi \<Longrightarrow> lo \<le> exponent_search lo hi a \<and> exponent_search lo hi a < hi"
proof (induction lo hi a rule: exponent_search.induct)
  case (1 lo hi a)
  show ?case
  proof (cases "hi \<le> lo + 1")
    case True
    then show ?thesis using "1.prems" by (subst exponent_search.simps, subst exponent_search.simps) simp
  next
    case False
    then have mid: "lo < (lo + hi) div 2" "(lo + hi) div 2 < hi" by linarith+
    show ?thesis
    proof (cases "pow2 ((lo + hi) div 2) \<le> a")
      case True
      with "1.IH"(1) [OF False True mid(2)] False mid show ?thesis
        by (subst exponent_search.simps, subst exponent_search.simps) simp
    next
      case ge: False
      with "1.IH"(2) [OF False ge mid(1)] False mid show ?thesis
        by (subst exponent_search.simps, subst exponent_search.simps) simp
    qed
  qed
qed

lemma exponent_search_bracket:
  "lo < hi \<Longrightarrow> pow2 lo \<le> a \<Longrightarrow> a < pow2 hi
     \<Longrightarrow> pow2 (exponent_search lo hi a) \<le> a \<and> a < pow2 (exponent_search lo hi a + 1)"
proof (induction lo hi a rule: exponent_search.induct)
  case (1 lo hi a)
  show ?case
  proof (cases "hi \<le> lo + 1")
    case True
    then have "hi = lo + 1" using "1.prems"(1) by simp
    then show ?thesis
      using "1.prems" by (subst exponent_search.simps, subst exponent_search.simps) simp
  next
    case False
    then have mid: "lo < (lo + hi) div 2" "(lo + hi) div 2 < hi" by linarith+
    show ?thesis
    proof (cases "pow2 ((lo + hi) div 2) \<le> a")
      case True
      with "1.IH"(1) [OF False True mid(2) True "1.prems"(3)] False show ?thesis
        by (subst exponent_search.simps, subst exponent_search.simps) simp
    next
      case lt: False
      then have "a < pow2 ((lo + hi) div 2)" by simp
      with "1.IH"(2) [OF False lt mid(1) "1.prems"(2)] False lt show ?thesis
        by (subst exponent_search.simps, subst exponent_search.simps) simp
    qed
  qed
qed

text \<open>Rounding to an integer moves a value by at most a half.\<close>

lemma round_half_even_near: "\<bar>of_int (round_half_even t) - t\<bar> \<le> 1 / 2"
proof -
  have "of_int \<lfloor>t\<rfloor> \<le> t" "t < of_int \<lfloor>t\<rfloor> + 1" by linarith+
  then show ?thesis
    by (auto simp: round_half_even_def Let_def)
qed

section \<open>Properties of the channel remixer\<close>

lemma length_add_into: "length (add_into dst src) = length dst"
  by (simp add: add_into_def)

lemma nth_add_into:
  "i < length dst \<Longrightarrow> length src = length dst
     \<Longrightarrow> add_into dst src ! i = fround (double_add (dst ! i) (src ! i))"
  by (simp add: add_into_def)

lemma downmix_loop_in_range:
  assumes "\<forall>ch \<in> set chs. ch < numberOfChannels buffer"
  shows "downmix_loop buffer chs dst = Some (foldl add_into dst (map (\<lambda>ch. channelData buffer ! ch) chs))"
  using assms by (induction chs arbitrary: dst) (simp_all add: getChannelData_def)

text \<open>Frame by frame, the loop over the channels is a running Float32 sum.\<close>

lemma foldl_add_into:
  assumes "\<forall>c \<in> set cs. length c = length dst"
  shows "length (foldl add_into dst cs) = length dst"
    and "i < length dst \<Longrightarrow>
           foldl add_into dst cs ! i = foldl (\<lambda>acc c. fround (double_add acc (c ! i))) (dst ! i) cs"
  using assms
proof (induction cs arbitrary: dst)
  case Nil
  { case 1 show ?case by simp }
  { case 2 show ?case by simp }
next
  case (Cons c cs)
  { case 1
    then show ?case using Cons.IH(1) [of "add_into dst c"] by (simp add: length_add_into) }
  { case 2
    then show ?case
      using Cons.IH(2) [of "add_into dst c"] by (simp add: length_add_into nth_add_into) }
qed

lemma downmix_all:
  assumes "wf_AudioBuffer buffer"
  shows "downmix_loop buffer [0..<numberOfChannels buffer] (replicate (length_buf buffer) (Num 0))
       = Some (map (\<lambda>i. foldl (\<lambda>acc c. fround (double_add acc (c ! i))) (Num 0) (channelData buffer))
                 [0..<length_buf buffer])"
proof -
  let ?z = "replicate (length_buf buffer) (Num 0)"
  have lens: "\<forall>c \<in> set (channelData buffer). length c = length ?z"
    using assms by (simp add: wf_AudioBuffer_def list_all_iff)
  have "map (\<lambda>ch. channelData buffer ! ch) [0..<numberOfChannels buffer] = channelData buffer"
    by (simp add: numberOfChannels_def map_nth)
  then have loop: "downmix_loop buffer [0..<numberOfChannels buffer] ?z
                 = Some (foldl add_into ?z (channelData buffer))"
    using downmix_loop_in_range [of "[0..<numberOfChannels buffer]" buffer ?z] by simp
  have "foldl add_into ?z (channelData buffer)
      = map (\<lambda>i. foldl (\<lambda>acc c. fround (double_add acc (c ! i))) (Num 0) (channelData buffer))
          [0..<length_buf buffer]"
    by (rule nth_equalityI) (simp_all add: foldl_add_into [OF lens])
  with loop show ?thesis by simp
qed

text \<open>The result of the remixer on a well-formed buffer, case by case.\<close>

lemma toTargetChannels_result:
  assumes "wf_AudioBuffer buffer" "channels \<in> {1, 2}"
  shows "\<exists>out. toTargetChannels buffer channels = Some out
           \<and> length_buf out = length_buf buffer
           \<and> sampleRate_buf out = sampleRate_buf buffer
           \<and> (channels = 1 \<longrightarrow>
                channelData out =
                  [map (\<lambda>i. fround (double_mul
                                (foldl (\<lambda>acc c. fround (double_add acc (c ! i))) (Num 0)
                                   (channelData buffer))
                                (double_recip (numberOfChannels buffer))))
                     [0..<length_buf buffer]])
           \<and> (channels = 2 \<and> numberOfChannels buffer = 1 \<longrightarrow>
                channelData out = [channelData buffer ! 0, channelData buffer ! 0])
           \<and> (channels = 2 \<and> numberOfChannels buffer \<ge> 2 \<longrightarrow>
                channelData out = [channelData buffer ! 0, channelData buffer ! 1])"
proof -
  have n: "0 < numberOfChannels buffer"
    using assms(1) by (simp add: wf_AudioBuffer_def numberOfChannels_def)
  have frames: "length_buf buffer \<noteq> 0"
    using assms(1) by (simp add: wf_AudioBuffer_def)
  have len: "length (channelData buffer ! ch) = length_buf buffer" if "ch < numberOfChannels buffer" for ch
    using assms(1) that by (simp add: wf_AudioBuffer_def numberOfChannels_def list_all_length)
  consider (mono) "channels = 1" | (up) "channels = 2" "numberOfChannels buffer = 1"
    | (stereo) "channels = 2" "numberOfChannels buffer \<ge> 2"
    using assms(2) n by fastforce
  then show ?thesis
  proof cases
    case mono
    then show ?thesis
      using downmix_all [OF assms(1)] frames
      by (simp add: toTargetChannels_def newOfflineAudioContext_def createBuffer_def
          getChannelData_def numberOfChannels_def comp_def)
  next
    case up
    then show ?thesis
      using len [of 0] frames
      by (simp add: toTargetChannels_def newOfflineAudioContext_def createBuffer_def
          getChannelData_def numberOfChannels_def typed_set_def numeral_2_eq_2)
  next
    case stereo
    then show ?thesis
      using len [of 0] len [of 1] n frames
      by (simp add: toTargetChannels_def newOfflineAudioContext_def createBuffer_def
          getChannelData_def numberOfChannels_def typed_set_def numeral_2_eq_2)
  qed
qed




section \<open>Properties of the WAV header parser\<close>

lemma unat_of_char: "unat (of_char c :: byte) = of_char c"
proof -
  have "(of_char c :: byte) = of_nat (of_char c)" by (simp only: of_nat_of_char)
  moreover have "(of_char c :: nat) < 256"
    using of_char_mod_256 [of c, where ?'a = nat] by (metis mod_less_divisor zero_less_numeral)
  ultimately show ?thesis by (simp add: unat_of_nat)
qed

lemma char_of_unat_eq: "char_of (unat (b::byte)) = c \<longleftrightarrow> b = of_char c"
proof
  assume "char_of (unat b) = c"
  then have "of_char c = unat b mod 256" by (simp add: of_char_of [symmetric])
  moreover have "unat b < 256" using unsigned_less [of b, where ?'a = nat] by simp
  ultimately have "unat b = of_char c" by simp
  then have "of_nat (unat b) = (of_nat (of_char c) :: byte)" by simp
  then show "b = of_char c" by (simp add: of_nat_of_char)
next
  assume "b = of_char c"
  then show "char_of (unat b) = c" by (simp add: unat_of_char)
qed

lemma readAscii4_eq:
  "readAscii4 view offset = [c0, c1, c2, c3] \<longleftrightarrow>
     view ! offset = of_char c0 \<and> view ! (offset + 1) = of_char c1
     \<and> view ! (offset + 2) = of_char c2 \<and> view ! (offset + 3) = of_char c3"
  by (simp add: readAscii4_def getUint8_def char_of_unat_eq)

lemma take4_drop:
  assumes "offset + 4 \<le> length view"
  shows "take 4 (drop offset view)
       = [view ! offset, view ! (offset + 1), view ! (offset + 2), view ! (offset + 3)]"
proof (rule nth_equalityI)
  show "length (take 4 (drop offset view))
      = length [view ! offset, view ! (offset + 1), view ! (offset + 2), view ! (offset + 3)]"
    using assms by simp
next
  fix i assume "i < length (take 4 (drop offset view))"
  then have "i < 4" by simp
  then consider "i = 0" | "i = 1" | "i = 2" | "i = 3" by linarith
  then show "take 4 (drop offset view) ! i
           = [view ! offset, view ! (offset + 1), view ! (offset + 2), view ! (offset + 3)] ! i"
    using assms by cases simp_all
qed

lemma readAscii4_take:
  assumes "offset + 4 \<le> length view"
  shows "readAscii4 view offset = [c0, c1, c2, c3] \<longleftrightarrow> take 4 (drop offset view) = ascii [c0, c1, c2, c3]"
  by (simp add: readAscii4_eq take4_drop [OF assms] ascii_def)

lemma scan_truncated:
  assumes "offset + 8 \<le> length view" "length view < offset + 8 + getUint32 view (offset + 4)"
  shows "scan view offset found = found"
  using assms by (subst scan.simps) simp

text \<open>
  Claim C4. readWavInfo fails if and only if the buffer is shorter than 12 bytes, or its
  first four bytes are not \<open>RIFF\<close>, or its bytes 8 to 11 are not \<open>WAVE\<close>, or one of channels,
  sample rate, bits per sample and data length is still zero after the scan, or the byte rate
  is not positive. A chunk whose declared size runs past the end of the buffer is not an
  error: the scan stops there and returns what it had found.
\<close>

theorem readWavInfo_fails_iff:
  "((\<exists>e. readWavInfo buf = Inl e) \<longleftrightarrow>
      length buf < 12 \<or> take 4 buf \<noteq> ascii ''RIFF'' \<or> take 4 (drop 8 buf) \<noteq> ascii ''WAVE''
      \<or> (case scan buf 12 (0, 0, 0, 0) of (channels, sampleRate, bitsPerSample, dataBytes) \<Rightarrow>
            channels = 0 \<or> sampleRate = 0 \<or> bitsPerSample = 0 \<or> dataBytes = 0
            \<or> real sampleRate * real channels * (real bitsPerSample / 8) \<le> 0))
   \<and> (offset + 8 \<le> length buf \<and> length buf < offset + 8 + getUint32 buf (offset + 4)
        \<longrightarrow> scan buf offset found = found)"
proof -
  have trunc: "offset + 8 \<le> length buf \<and> length buf < offset + 8 + getUint32 buf (offset + 4)
        \<longrightarrow> scan buf offset found = found"
    using scan_truncated by blast
  have fails: "(\<exists>e. readWavInfo buf = Inl e) \<longleftrightarrow>
      length buf < 12 \<or> take 4 buf \<noteq> ascii ''RIFF'' \<or> take 4 (drop 8 buf) \<noteq> ascii ''WAVE''
      \<or> (case scan buf 12 (0, 0, 0, 0) of (channels, sampleRate, bitsPerSample, dataBytes) \<Rightarrow>
            channels = 0 \<or> sampleRate = 0 \<or> bitsPerSample = 0 \<or> dataBytes = 0
            \<or> real sampleRate * real channels * (real bitsPerSample / 8) \<le> 0)"
  proof (cases "length buf < 12")
    case True
    then show ?thesis by (simp add: readWavInfo_def)
  next
    case False
    then have "0 + 4 \<le> length buf" "8 + 4 \<le> length buf" by simp_all
    from readAscii4_take [OF this(1), of "CHR ''R''" "CHR ''I''" "CHR ''F''" "CHR ''F''"]
         readAscii4_take [OF this(2), of "CHR ''W''" "CHR ''A''" "CHR ''V''" "CHR ''E''"]
    have hdr: "readAscii4 buf 0 = ''RIFF'' \<longleftrightarrow> take 4 buf = ascii ''RIFF''"
      "readAscii4 buf 8 = ''WAVE'' \<longleftrightarrow> take 4 (drop 8 buf) = ascii ''WAVE''"
      by simp_all
    obtain channels sampleRate bitsPerSample dataBytes
      where sc: "scan buf 12 (0, 0, 0, 0) = (channels, sampleRate, bitsPerSample, dataBytes)"
      by (cases "scan buf 12 (0, 0, 0, 0)") auto
    show ?thesis
      using False by (simp only: readWavInfo_def Let_def hdr sc) (auto split: if_splits)
  qed
  from fails trunc show ?thesis by (rule conjI)
qed

theorem readWavInfo_fails_iff_witness:
  "readWavInfo wav_truncated
     = Inr \<lparr> info_channels = 2, info_sampleRate = 44100, info_bitsPerSample = 16,
              info_dataBytes = 4, info_durationSec = 1 / 44100 \<rparr>
   \<and> 48 + 8 \<le> length wav_truncated
   \<and> length wav_truncated < 48 + 8 + getUint32 wav_truncated (48 + 4)
   \<and> scan wav_truncated 48 (2, 44100, 16, 4) = (2, 44100, 16, 4)"
  using readWavInfo_fails_iff [of wav_truncated 48 "(2, 44100, 16, 4)"]
  by (simp add: readWavInfo_def wav_truncated_def ascii_def readAscii4_eq getUint8_def
      getUint32_def getUint16_def chunk_update_def scan.simps chunk_walk.simps)

lemma scan_chunk_walk:
  "scan view offset st
     = foldl (\<lambda>st c. chunk_update view (fst c) (fst (snd c)) (snd (snd c)) st) st (chunk_walk view offset)"
proof (induction view offset st rule: scan.induct)
  case (1 view offset st)
  show ?case
  proof (cases "offset + 8 \<le> length view \<and> \<not> length view < offset + 8 + getUint32 view (offset + 4)")
    case True
    then show ?thesis
      using "1.IH" by (subst scan.simps, subst chunk_walk.simps) simp
  next
    case False
    then show ?thesis
      by (subst scan.simps, subst chunk_walk.simps) auto
  qed
qed

text \<open>What a run of chunks leaves in the four fields, by the last chunk of each kind.\<close>

lemma foldl_chunk_update_last:
  "foldl (\<lambda>st c. chunk_update view (fst c) (fst (snd c)) (snd (snd c)) st) (channels, sampleRate, bitsPerSample, dataBytes) cs
     = ((if filter is_fmt16 cs = [] then channels
         else getUint16 view (snd (snd (last (filter is_fmt16 cs))) + 2)),
        (if filter is_fmt16 cs = [] then sampleRate
         else getUint32 view (snd (snd (last (filter is_fmt16 cs))) + 4)),
        (if filter is_fmt16 cs = [] then bitsPerSample
         else getUint16 view (snd (snd (last (filter is_fmt16 cs))) + 14)),
        (if filter is_data cs = [] then dataBytes
         else fst (snd (last (filter is_data cs)))))"
proof (induction cs rule: rev_induct)
  case Nil
  then show ?case by simp
next
  case (snoc c cs)
  obtain chunkId chunkSize chunkDataOffset where c: "c = (chunkId, chunkSize, chunkDataOffset)"
    by (cases c) auto
  have kinds: "is_fmt16 c \<longleftrightarrow> chunkId = ''fmt '' \<and> chunkSize \<ge> 16" "is_data c \<longleftrightarrow> chunkId = ''data''"
    by (simp_all add: c is_fmt16_def is_data_def)
  have sel: "fst c = chunkId" "fst (snd c) = chunkSize" "snd (snd c) = chunkDataOffset"
    by (simp_all add: c)
  show ?case
    unfolding foldl_append snoc.IH filter_append
    by (simp add: kinds sel chunk_update_def del: One_nat_def)
qed

lemma readWavInfo_Inr:
  assumes "readWavInfo buf = Inr info"
  shows "scan buf 12 (0, 0, 0, 0)
           = (info_channels info, info_sampleRate info, info_bitsPerSample info, info_dataBytes info)"
    and "info_channels info \<noteq> 0" "info_dataBytes info \<noteq> 0"
proof -
  obtain channels sampleRate bitsPerSample dataBytes
    where sc: "scan buf 12 (0, 0, 0, 0) = (channels, sampleRate, bitsPerSample, dataBytes)"
    by (cases "scan buf 12 (0, 0, 0, 0)") auto
  have a: "\<not> length buf < 12"
    using assms by (rule contrapos_pn) (simp add: readWavInfo_def)
  have b: "\<not> (readAscii4 buf 0 \<noteq> ''RIFF'' \<or> readAscii4 buf 8 \<noteq> ''WAVE'')"
    using assms a by (rule_tac notI) (simp add: readWavInfo_def)
  have c: "\<not> (channels = 0 \<or> sampleRate = 0 \<or> bitsPerSample = 0 \<or> dataBytes = 0)"
    using assms a b by (rule_tac notI) (simp add: readWavInfo_def sc)
  have d: "\<not> real sampleRate * real channels * (real bitsPerSample / 8) \<le> 0"
    using assms a b c by (rule_tac notI) (simp add: readWavInfo_def sc Let_def)
  have "info = \<lparr> info_channels = channels, info_sampleRate = sampleRate,
                  info_bitsPerSample = bitsPerSample, info_dataBytes = dataBytes,
                  info_durationSec = real dataBytes / (real sampleRate * real channels * (real bitsPerSample / 8)) \<rparr>"
    using assms a b c d by (simp add: readWavInfo_def sc Let_def)
  then show "scan buf 12 (0, 0, 0, 0)
           = (info_channels info, info_sampleRate info, info_bitsPerSample info, info_dataBytes info)"
    and "info_channels info \<noteq> 0" "info_dataBytes info \<noteq> 0"
    using sc c by simp_all
qed

text \<open>
  Claim C8, amended. When readWavInfo succeeds, the channel count, sample rate and bits per
  sample it reports are read from the last \<open>fmt \<close> chunk of at least 16 bytes that the scan
  processed, and the data length is the size of the last \<open>data\<close> chunk it processed: each
  such chunk overwrites what an earlier one set.
\<close>

theorem readWavInfo_last_chunk:
  assumes "readWavInfo buf = Inr info"
  shows "filter is_fmt16 (chunk_walk buf 12) \<noteq> [] \<and> filter is_data (chunk_walk buf 12) \<noteq> []
       \<and> info_channels info = getUint16 buf (snd (snd (last (filter is_fmt16 (chunk_walk buf 12)))) + 2)
       \<and> info_sampleRate info = getUint32 buf (snd (snd (last (filter is_fmt16 (chunk_walk buf 12)))) + 4)
       \<and> info_bitsPerSample info = getUint16 buf (snd (snd (last (filter is_fmt16 (chunk_walk buf 12)))) + 14)
       \<and> info_dataBytes info = fst (snd (last (filter is_data (chunk_walk buf 12))))"
proof -
  let ?cs = "chunk_walk buf 12"
  note sc = readWavInfo_Inr [OF assms]
  have eq: "(info_channels info, info_sampleRate info, info_bitsPerSample info, info_dataBytes info)
      = ((if filter is_fmt16 ?cs = [] then 0
          else getUint16 buf (snd (snd (last (filter is_fmt16 ?cs))) + 2)),
         (if filter is_fmt16 ?cs = [] then 0
          else getUint32 buf (snd (snd (last (filter is_fmt16 ?cs))) + 4)),
         (if filter is_fmt16 ?cs = [] then 0
          else getUint16 buf (snd (snd (last (filter is_fmt16 ?cs))) + 14)),
         (if filter is_data ?cs = [] then 0
          else fst (snd (last (filter is_data ?cs)))))"
    using sc(1) unfolding scan_chunk_walk foldl_chunk_update_last by simp
  have fmt: "filter is_fmt16 ?cs \<noteq> []" using eq sc(2) by (auto split: if_splits)
  have dat: "filter is_data ?cs \<noteq> []" using eq sc(3) by (auto split: if_splits)
  show ?thesis using eq fmt dat by simp
qed

theorem readWavInfo_last_chunk_witness:
  "readWavInfo wav_repeated
     = Inr \<lparr> info_channels = 1, info_sampleRate = 8000, info_bitsPerSample = 8,
              info_dataBytes = 2, info_durationSec = 2 / 8000 \<rparr>
   \<and> chunk_walk wav_repeated 12
     = [(''fmt '', 16, 20), (''data'', 4, 44), (''fmt '', 16, 56), (''data'', 2, 80)]"
proof -
  have parsed: "readWavInfo wav_repeated
     = Inr \<lparr> info_channels = 1, info_sampleRate = 8000, info_bitsPerSample = 8,
              info_dataBytes = 2, info_durationSec = 2 / 8000 \<rparr>"
    by (simp add: readWavInfo_def wav_repeated_def ascii_def readAscii4_eq getUint8_def
        getUint32_def getUint16_def chunk_update_def scan.simps)
  have walk: "chunk_walk wav_repeated 12
     = [(''fmt '', 16, 20), (''data'', 4, 44), (''fmt '', 16, 56), (''data'', 2, 80)]"
    by (simp add: wav_repeated_def ascii_def readAscii4_def char_of_def bit_0 getUint8_def
        getUint32_def chunk_walk.simps)
  show ?thesis
    using readWavInfo_last_chunk [OF parsed] by (intro conjI parsed walk)
qed

text \<open>
  Claim C8, as stated, takes the values from the last \<open>fmt \<close> chunk. A later \<open>fmt \<close> chunk
  shorter than 16 bytes overwrites nothing: in \<open>wav_two_fmt\<close> the last \<open>fmt \<close> chunk announces
  one channel at 8000 Hz, and the parser reports the two channels and 44100 Hz of the first.
\<close>

theorem small_fmt_chunk_counterexample:
  "readWavInfo wav_two_fmt
     = Inr \<lparr> info_channels = 2, info_sampleRate = 44100, info_bitsPerSample = 16,
              info_dataBytes = 4, info_durationSec = 1 / 44100 \<rparr>
   \<and> chunk_walk wav_two_fmt 12 = [(''fmt '', 16, 20), (''fmt '', 14, 44), (''data'', 4, 66)]
   \<and> getUint16 wav_two_fmt (44 + 2) = 1 \<and> getUint32 wav_two_fmt (44 + 4) = 8000"
proof -
  have "readWavInfo wav_two_fmt
     = Inr \<lparr> info_channels = 2, info_sampleRate = 44100, info_bitsPerSample = 16,
              info_dataBytes = 4, info_durationSec = 1 / 44100 \<rparr>"
    by (simp add: readWavInfo_def wav_two_fmt_def ascii_def readAscii4_eq getUint8_def
        getUint32_def getUint16_def chunk_update_def scan.simps)
  moreover have "chunk_walk wav_two_fmt 12 = [(''fmt '', 16, 20), (''fmt '', 14, 44), (''data'', 4, 66)]"
    by (simp add: wav_two_fmt_def ascii_def readAscii4_def char_of_def bit_0 getUint8_def
        getUint32_def chunk_walk.simps)
  moreover have "getUint16 wav_two_fmt (44 + 2) = 1" "getUint32 wav_two_fmt (44 + 4) = 8000"
    by (simp_all add: wav_two_fmt_def ascii_def getUint8_def getUint32_def getUint16_def)
  ultimately show ?thesis by (intro conjI)
qed

section \<open>Properties of the chunk builders\<close>

lemma length_ascii: "length (ascii s) = length s"
  by (simp add: ascii_def)

lemma length_u16le: "length (u16le v) = 2"
  by (simp add: u16le_def Let_def)

lemma length_u32le: "length (u32le v) = 4"
  by (simp add: u32le_def Let_def)

lemma writeAsciiTo_upto:
  assumes "offset + length s \<le> length arr" "k \<le> length s"
  shows "foldl (\<lambda>a i. a[offset + i := of_char (s ! i)]) arr [0..<k]
       = take offset arr @ take k (ascii s) @ drop (offset + k) arr"
  using assms(2)
proof (induction k)
  case 0
  then show ?case by simp
next
  case (Suc k)
  then have k: "k < length s" by simp
  have d: "drop (offset + k) arr = arr ! (offset + k) # drop (Suc (offset + k)) arr"
    using assms(1) k by (simp add: Cons_nth_drop_Suc)
  have t: "take (Suc k) (ascii s) = take k (ascii s) @ [of_char (s ! k)]"
    using k by (simp add: take_Suc_conv_app_nth ascii_def)
  have len: "length (take offset arr @ take k (ascii s)) = offset + k"
    using assms(1) k by (simp add: length_ascii)
  have "foldl (\<lambda>a i. a[offset + i := of_char (s ! i)]) arr [0..<Suc k]
      = (take offset arr @ take k (ascii s) @ drop (offset + k) arr)[offset + k := of_char (s ! k)]"
    using Suc.IH k by simp
  also have "\<dots> = ((take offset arr @ take k (ascii s)) @ arr ! (offset + k) # drop (Suc (offset + k)) arr)
                     [length (take offset arr @ take k (ascii s)) := of_char (s ! k)]"
    by (simp only: len d append_assoc)
  also have "\<dots> = (take offset arr @ take k (ascii s)) @ of_char (s ! k) # drop (Suc (offset + k)) arr"
    by (simp only: list_update_length)
  finally show ?case by (simp add: t)
qed

lemma writeAsciiTo_write_at:
  assumes "offset + length s \<le> length arr"
  shows "writeAsciiTo arr offset s = write_at arr offset (ascii s)"
  using writeAsciiTo_upto [OF assms, of "length s"]
  by (simp add: writeAsciiTo_def write_at_def length_ascii ascii_def)

text \<open>Writing into a fresh array whose first part is already laid out.\<close>

lemma write_at_skip:
  assumes "length a \<le> offset"
  shows "write_at (a @ rest) offset bs = a @ write_at rest (offset - length a) bs"
  using assms by (simp add: write_at_def)

lemma write_at_zeros:
  assumes "length bs \<le> n"
  shows "write_at (replicate n z) 0 bs = bs @ replicate (n - length bs) z"
  using assms by (simp add: write_at_def)

lemma length_write_at:
  "offset + length bs \<le> length arr \<Longrightarrow> length (write_at arr offset bs) = length arr"
  by (simp add: write_at_def)

lemmas layout_simps =
  writeAsciiTo_write_at setUint32_def setUint16_def set_at_def write_at_skip write_at_zeros
  length_ascii length_u16le length_u32le Let_def

lemma buildSmplChunk_layout:
  "buildSmplChunk sampleRate
     = Some (ascii ''smpl'' @ u32le 36 @ u32le 0 @ u32le 0
             @ u32le (if sampleRate > 0 then \<lfloor>(1 / real sampleRate) * 1000000000\<rfloor> else 0)
             @ u32le 60 @ u32le 0 @ u32le 0 @ u32le 0 @ u32le 0 @ u32le 0)"
  unfolding buildSmplChunk_def by (simp add: layout_simps)

lemma buildFmtChunkPcm_layout:
  "buildFmtChunkPcm channels sampleRate bitsPerSample
     = Some (ascii ''fmt '' @ u32le 16 @ u16le 1 @ u16le (int channels) @ u32le (int sampleRate)
             @ u32le (truncate_real (real sampleRate * (real channels * (real bitsPerSample / 8))))
             @ u16le (truncate_real (real channels * (real bitsPerSample / 8)))
             @ u16le (int bitsPerSample))"
  unfolding buildFmtChunkPcm_def by (simp add: layout_simps)

lemma length_pcm_bytes: "length (pcm_bytes pcm) = 2 * length pcm"
  by (induction pcm) (simp_all add: pcm_bytes_def int16_bytes_def)

lemma buildDataChunk_layout:
  "buildDataChunk pcm
     = Some (ascii ''data'' @ u32le (int (2 * length pcm)) @ pcm_bytes pcm)"
  unfolding buildDataChunk_def by (simp add: layout_simps length_pcm_bytes)

lemma buildListChunkTnge_layout:
  "buildListChunkTnge regions
     = Some (ascii ''LIST''
             @ u32le (int (12 + length (tnge_json regions @ [CHR 0x00])
                           + (12 + length (tnge_json regions @ [CHR 0x00])) mod 2))
             @ (ascii ''INFO'' @ ascii ''TNGE'' @ u32le (int (length (tnge_json regions @ [CHR 0x00])))
                @ ascii (tnge_json regions @ [CHR 0x00]))
             @ replicate ((12 + length (tnge_json regions @ [CHR 0x00])) mod 2) 0)"
proof -
  define tngeJson where "tngeJson = ascii (tnge_json regions @ [CHR 0x00])"
  define n where "n = length (tnge_json regions)"
  have len: "length tngeJson = Suc n" by (simp add: tngeJson_def n_def length_ascii)
  show ?thesis
  proof (cases "even n")
    case True
    then have "(13 + n) mod 2 = 1"
      by presburger
    then show ?thesis
      unfolding buildListChunkTnge_def tngeJson_def [symmetric]
      by (simp add: layout_simps len n_def [symmetric] list_update_append)
  next
    case False
    then have "(13 + n) mod 2 = 0"
      by presburger
    then show ?thesis
      unfolding buildListChunkTnge_def tngeJson_def [symmetric]
      by (simp add: layout_simps len n_def [symmetric])
  qed
qed

lemma unat_byte_of_int: "0 \<le> w \<Longrightarrow> unat (word_of_int w :: byte) = nat (w mod 256)"
  by (simp add: unat_eq_nat_uint uint_word_of_int)

lemma le32_decompose:
  fixes w :: int
  assumes "0 \<le> w" "w < 2 ^ 32"
  shows "w mod 256 + 256 * (w div 256 mod 256) + 65536 * (w div 65536 mod 256)
         + 16777216 * (w div 16777216 mod 256) = w"
proof -
  have a: "w div 65536 = w div 256 div 256" "w div 16777216 = w div 256 div 256 div 256"
    by (simp_all add: zdiv_zmult2_eq [symmetric])
  have "w div 256 div 256 div 256 < 256" using assms by (simp add: zdiv_zmult2_eq [symmetric])
  moreover have "0 \<le> w div 256 div 256 div 256" using assms by simp
  ultimately have top: "w div 256 div 256 div 256 mod 256 = w div 256 div 256 div 256" by simp
  show ?thesis unfolding a top by presburger
qed

text \<open>Reading back a size field: \<open>getUint32\<close> after four bytes of tag returns the value stored.\<close>

lemma getUint32_at_4:
  "getUint32 ([t0, t1, t2, t3] @ [b0, b1, b2, b3] @ rest) 4
     = unat b0 + 256 * unat b1 + 65536 * unat b2 + 16777216 * unat b3"
  by (simp add: getUint32_def getUint8_def)

lemma getUint32_u32le:
  "getUint32 ([t0, t1, t2, t3] @ u32le v @ rest) 4 = nat (v mod 2 ^ 32)"
proof -
  define w where "w = v mod 2 ^ 32"
  have w: "0 \<le> w" "w < 2 ^ 32" by (simp_all add: w_def)
  have pos: "0 \<le> w div 256" "0 \<le> w div 65536" "0 \<le> w div 16777216" using w(1) by simp_all
  have bytes: "u32le v = [word_of_int w, word_of_int (w div 256), word_of_int (w div 65536),
                          word_of_int (w div 16777216)]"
    by (simp add: u32le_def Let_def w_def)
  have "getUint32 ([t0, t1, t2, t3] @ u32le v @ rest) 4
      = nat (w mod 256) + 256 * nat (w div 256 mod 256)
        + 65536 * nat (w div 65536 mod 256) + 16777216 * nat (w div 16777216 mod 256)"
    unfolding bytes getUint32_at_4
    by (simp only: unat_byte_of_int [OF w(1)] unat_byte_of_int [OF pos(1)]
        unat_byte_of_int [OF pos(2)] unat_byte_of_int [OF pos(3)])
  also have "\<dots> = nat (w mod 256 + 256 * (w div 256 mod 256) + 65536 * (w div 65536 mod 256)
                       + 16777216 * (w div 16777216 mod 256))"
    by (simp add: nat_add_distrib nat_mult_distrib)
  also have "\<dots> = nat w" by (simp only: le32_decompose [OF w])
  finally show ?thesis by (simp add: w_def)
qed

lemma nat_int_mod: "nat (int n mod 2 ^ 32) = n mod 2 ^ 32"
  by (simp add: nat_mod_distrib)

lemma ascii4: "ascii [c0, c1, c2, c3] = [of_char c0, of_char c1, of_char c2, of_char c3]"
  by (simp add: ascii_def)

lemma length_list_payload: "length (list_payload regions) = 13 + length (tnge_json regions)"
  by (simp add: list_payload_def length_ascii length_u32le)

lemma length_tnge_json_empty: "length (tnge_json []) = 190"
  by (simp add: tnge_json_def show_int_def show_nat.simps)

text \<open>
  Claim C1, amended. The LIST chunk is its tag, a size field, its payload and one zero pad
  byte exactly when the payload length is odd; the size field at offset 4 holds the padded
  length, payload plus pad byte. The data chunk is its tag, a size field and the PCM bytes;
  their number is even, so there is no pad byte and the size field holds the payload length.
  The \<open>fmt \<close> and \<open>smpl\<close> chunks have payloads of 16 and 36 bytes and no pad byte.
\<close>

theorem chunk_size_includes_pad:
  "buildListChunkTnge regions
     = Some (ascii ''LIST''
             @ u32le (int (length (list_payload regions) + length (list_payload regions) mod 2))
             @ list_payload regions @ replicate (length (list_payload regions) mod 2) 0)
   \<and> getUint32 (the (buildListChunkTnge regions)) 4
     = (length (list_payload regions) + length (list_payload regions) mod 2) mod 2 ^ 32
   \<and> buildDataChunk pcm = Some (ascii ''data'' @ u32le (int (length (pcm_bytes pcm))) @ pcm_bytes pcm)
   \<and> getUint32 (the (buildDataChunk pcm)) 4 = length (pcm_bytes pcm) mod 2 ^ 32
   \<and> length (pcm_bytes pcm) = 2 * length pcm
   \<and> (\<exists>payload. buildFmtChunkPcm channels sampleRate bitsPerSample
                    = Some (ascii ''fmt '' @ u32le 16 @ payload) \<and> length payload = 16)
   \<and> (\<exists>payload. buildSmplChunk sampleRate = Some (ascii ''smpl'' @ u32le 36 @ payload)
                  \<and> length payload = 36)"
proof -
  have list: "buildListChunkTnge regions
     = Some (ascii ''LIST''
             @ u32le (int (length (list_payload regions) + length (list_payload regions) mod 2))
             @ list_payload regions @ replicate (length (list_payload regions) mod 2) 0)"
    unfolding buildListChunkTnge_layout length_list_payload
    by (simp add: list_payload_def)
  have list_size: "getUint32 (the (buildListChunkTnge regions)) 4
     = (length (list_payload regions) + length (list_payload regions) mod 2) mod 2 ^ 32"
    unfolding list option.sel ascii4 getUint32_u32le
    by (rule nat_int_mod)
  have data: "buildDataChunk pcm
     = Some (ascii ''data'' @ u32le (int (length (pcm_bytes pcm))) @ pcm_bytes pcm)"
    by (simp add: buildDataChunk_layout length_pcm_bytes)
  have data_size: "getUint32 (the (buildDataChunk pcm)) 4 = length (pcm_bytes pcm) mod 2 ^ 32"
    unfolding data option.sel ascii4 getUint32_u32le
    by (rule nat_int_mod)
  have fmt: "\<exists>payload. buildFmtChunkPcm channels sampleRate bitsPerSample
                    = Some (ascii ''fmt '' @ u32le 16 @ payload) \<and> length payload = 16"
    unfolding buildFmtChunkPcm_layout by (simp add: length_u16le length_u32le)
  have smpl: "\<exists>payload. buildSmplChunk sampleRate = Some (ascii ''smpl'' @ u32le 36 @ payload)
                  \<and> length payload = 36"
    unfolding buildSmplChunk_layout by (simp add: length_u32le)
  from list list_size data data_size length_pcm_bytes [of pcm] fmt smpl show ?thesis
    by (intro conjI)
qed

text \<open>
  Claim C1, as stated, has the size field equal to the unpadded payload length. With no
  regions the LIST payload has 203 bytes and one pad byte follows it, but the size field at
  offset 4 reads 204.
\<close>

theorem list_chunk_size_counterexample:
  "buildListChunkTnge [] = Some (ascii ''LIST'' @ u32le 204 @ list_payload [] @ [0])
   \<and> length (list_payload []) = 203
   \<and> getUint32 (ascii ''LIST'' @ u32le 204 @ list_payload [] @ [0]) 4 = 204"
proof -
  have "buildListChunkTnge [] = Some (ascii ''LIST'' @ u32le 204 @ list_payload [] @ [0])"
    unfolding buildListChunkTnge_layout
    by (simp add: list_payload_def length_tnge_json_empty)
  moreover have "length (list_payload []) = 203"
    by (simp add: length_list_payload length_tnge_json_empty)
  moreover have "getUint32 (ascii ''LIST'' @ u32le 204 @ list_payload [] @ [0]) 4 = 204"
    unfolding ascii4 getUint32_u32le by simp
  ultimately show ?thesis by (intro conjI)
qed

section \<open>Properties of the kit encoder\<close>

lemma toTargetChannels_frames:
  assumes "wf_AudioBuffer buffer" "channels \<in> {1, 2}"
  shows "\<exists>out. toTargetChannels buffer channels = Some out \<and> length_buf out = length_buf buffer"
  using toTargetChannels_result [OF assms] by blast

text \<open>
  Every buffer has at least one frame, so the first loop of the encoder keeps every item:
  its test \<open>ch.length <= 0\<close> never holds.
\<close>

lemma render_loop_keeps_all:
  assumes "\<forall>it \<in> set its. wf_AudioBuffer (snd it)" "channels \<in> {1, 2}"
  shows "\<exists>chs. length chs = length its
           \<and> render_loop channels its (rendered, ns, frameLengths, totalFrames)
             = Some (rendered @ chs, ns @ map fst its,
                     frameLengths @ map (\<lambda>it. int (length_buf (snd it))) its,
                     totalFrames + sum_list (map (\<lambda>it. length_buf (snd it)) its))"
  using assms(1)
proof (induction its arbitrary: rendered ns frameLengths totalFrames)
  case Nil
  then show ?case by simp
next
  case (Cons it its)
  from Cons.prems have wf: "wf_AudioBuffer (snd it)" and rest: "\<forall>it \<in> set its. wf_AudioBuffer (snd it)"
    by simp_all
  from toTargetChannels_frames [OF wf assms(2)]
  obtain ch where ch: "toTargetChannels (snd it) channels = Some ch" "length_buf ch = length_buf (snd it)"
    by blast
  have pos: "0 < length_buf (snd it)" using wf by (simp add: wf_AudioBuffer_def)
  from Cons.IH [OF rest, of "rendered @ [ch]" "ns @ [fst it]"
      "frameLengths @ [int (length_buf ch)]" "totalFrames + length_buf ch"]
  obtain chs where "length chs = length its" "render_loop channels its
      (rendered @ [ch], ns @ [fst it], frameLengths @ [int (length_buf ch)], totalFrames + length_buf ch)
    = Some ((rendered @ [ch]) @ chs, (ns @ [fst it]) @ map fst its,
            (frameLengths @ [int (length_buf ch)]) @ map (\<lambda>it. int (length_buf (snd it))) its,
            (totalFrames + length_buf ch) + sum_list (map (\<lambda>it. length_buf (snd it)) its))"
    by blast
  then show ?case
    using pos ch by (auto intro!: exI [of _ "ch # chs"])
qed

lemma tnge_json_empty: "tnge_json [] = json_no_regions"
  by (simp add: tnge_json_def json_no_regions_def show_int_def show_nat.simps digit_char_def
      char_of_def bit_0)

lemma buildListChunkTnge_empty:
  "buildListChunkTnge [] = Some (ascii ''LIST'' @ u32le 204 @ list_payload [] @ [0])"
  unfolding buildListChunkTnge_layout
  by (simp add: list_payload_def length_tnge_json_empty)

lemma getUint32_after:
  "getUint32 (pre @ [b0, b1, b2, b3] @ rest) (length pre)
     = unat b0 + 256 * unat b1 + 65536 * unat b2 + 16777216 * unat b3"
  by (simp add: getUint32_def getUint8_def nth_append)

lemma getUint32_u32le_after:
  "getUint32 (pre @ u32le v @ rest) (length pre) = nat (v mod 2 ^ 32)"
proof -
  obtain b0 b1 b2 b3 where b: "u32le v = [b0, b1, b2, b3]"
    by (simp add: u32le_def Let_def)
  have "getUint32 (pre @ u32le v @ rest) (length pre) = getUint32 ([0, 0, 0, 0] @ u32le v @ []) 4"
    unfolding b getUint32_after getUint32_at_4 by simp
  then show ?thesis by (simp only: getUint32_u32le)
qed

lemma readAscii4_after:
  "readAscii4 (pre @ ascii [c0, c1, c2, c3] @ rest) (length pre) = [c0, c1, c2, c3]"
  by (simp add: readAscii4_eq ascii4 nth_append)

text \<open>The scan over a buffer that holds a whole chunk at \<open>offset\<close>.\<close>

lemma chunk_walk_chunk:
  assumes "buf = pre @ ascii [c0, c1, c2, c3] @ u32le (int n) @ payload @ rest"
    and "length pre = offset" "length payload = n + n mod 2" "n < 2 ^ 32"
  shows "chunk_walk buf offset
       = ([c0, c1, c2, c3], n, offset + 8) # chunk_walk buf (offset + 8 + n + n mod 2)"
proof -
  have id: "readAscii4 buf offset = [c0, c1, c2, c3]"
    unfolding assms(1) assms(2) [symmetric] by (rule readAscii4_after)
  have l: "length (pre @ ascii [c0, c1, c2, c3]) = offset + 4"
    by (simp add: assms(2) length_ascii)
  have "getUint32 ((pre @ ascii [c0, c1, c2, c3]) @ u32le (int n) @ payload @ rest) (offset + 4)
          = nat (int n mod 2 ^ 32)"
    using getUint32_u32le_after [of "pre @ ascii [c0, c1, c2, c3]" "int n" "payload @ rest"]
    unfolding l .
  then have sz: "getUint32 buf (offset + 4) = n"
    using assms(4) by (simp add: assms(1) nat_mod_distrib)
  have fits: "offset + 8 \<le> length buf" "\<not> length buf < offset + 8 + n"
    using assms(3) by (simp_all add: assms(1) assms(2) [symmetric] length_ascii length_u32le)
  show ?thesis
    by (subst chunk_walk.simps) (simp add: id sz fits)
qed

lemma chunk_walk_end: "length buf \<le> offset \<Longrightarrow> chunk_walk buf offset = []"
  by (subst chunk_walk.simps) simp

text \<open>
  Claim C9. With an empty item list and a positive sample rate the kit encoder succeeds.
  It returns \<open>RIFF\<close>, the size of what follows, \<open>WAVE\<close>, and then the \<open>fmt \<close> chunk, the
  LIST chunk, the \<open>smpl\<close> chunk and a data chunk with a payload of no bytes; the scanning
  loop of the parser finds these four chunks and ends at the end of the buffer; the JSON text
  in the LIST chunk has an empty \<open>regions\<close> array; and the reported duration is 0.
\<close>

theorem empty_kit:
  assumes "0 < opt_sampleRate options"
  shows "(\<exists>fmtChunk smplChunk.
           buildFmtChunkPcm (opt_channels options) (opt_sampleRate options) 16 = Some fmtChunk
         \<and> length fmtChunk = 24
         \<and> buildSmplChunk (opt_sampleRate options) = Some smplChunk
         \<and> length smplChunk = 44
         \<and> exportAcDryKitWavPcm16 [] options
             = Some (ascii ''RIFF'' @ u32le 292 @ ascii ''WAVE''
                     @ fmtChunk
                     @ (ascii ''LIST'' @ u32le 204 @ list_payload [] @ [0])
                     @ smplChunk
                     @ (ascii ''data'' @ u32le 0),
                     Num 0)
         \<and> chunk_walk (ascii ''RIFF'' @ u32le 292 @ ascii ''WAVE''
                     @ fmtChunk
                     @ (ascii ''LIST'' @ u32le 204 @ list_payload [] @ [0])
                     @ smplChunk
                     @ (ascii ''data'' @ u32le 0)) 12
             = [(''fmt '', 16, 20), (''LIST'', 204, 44), (''smpl'', 36, 256), (''data'', 0, 300)])
       \<and> tnge_json [] = json_no_regions"
proof -
  define fmtChunk where "fmtChunk = ascii ''fmt '' @ u32le 16 @ u16le 1 @ u16le (int (opt_channels options))
             @ u32le (int (opt_sampleRate options))
             @ u32le (truncate_real (real (opt_sampleRate options) * (real (opt_channels options) * (real 16 / 8))))
             @ u16le (truncate_real (real (opt_channels options) * (real 16 / 8)))
             @ u16le (int 16)"
  define smplChunk where "smplChunk = ascii ''smpl'' @ u32le 36 @ u32le 0 @ u32le 0
             @ u32le (if opt_sampleRate options > 0 then \<lfloor>(1 / real (opt_sampleRate options)) * 1000000000\<rfloor> else 0)
             @ u32le 60 @ u32le 0 @ u32le 0 @ u32le 0 @ u32le 0 @ u32le 0"
  define listChunk where "listChunk = ascii ''LIST'' @ u32le 204 @ list_payload [] @ [0]"
  have fmt: "buildFmtChunkPcm (opt_channels options) (opt_sampleRate options) 16 = Some fmtChunk"
    unfolding fmtChunk_def by (rule buildFmtChunkPcm_layout)
  have smpl: "buildSmplChunk (opt_sampleRate options) = Some smplChunk"
    unfolding smplChunk_def by (rule buildSmplChunk_layout)
  have list: "buildListChunkTnge [] = Some listChunk"
    unfolding listChunk_def by (rule buildListChunkTnge_empty)
  have data: "buildDataChunk [] = Some (ascii ''data'' @ u32le 0)"
    by (simp add: buildDataChunk_layout pcm_bytes_def)
  have len: "length fmtChunk = 24" "length smplChunk = 44" "length listChunk = 212"
    by (simp_all add: fmtChunk_def smplChunk_def listChunk_def length_ascii length_u16le length_u32le
        length_list_payload length_tnge_json_empty)
  have "round_double 0 = Num 0"
    by (simp add: round_double_def round_to_def exponent_search.simps pow2_def round_half_even_def)
  then have dur: "js_div 0 (opt_sampleRate options) = Num 0"
    using assms by (simp add: js_div_def)
  have exported: "exportAcDryKitWavPcm16 [] options
      = Some (ascii ''RIFF'' @ u32le 292 @ ascii ''WAVE'' @ fmtChunk @ listChunk @ smplChunk
              @ (ascii ''data'' @ u32le 0), Num 0)"
    unfolding exportAcDryKitWavPcm16_def kit_render_def
    by (simp add: buildAcDryRegions_def fmt smpl list data len dur layout_simps)
  define out where "out = ascii ''RIFF'' @ u32le 292 @ ascii ''WAVE'' @ fmtChunk @ listChunk @ smplChunk
              @ (ascii ''data'' @ u32le 0)"
  define fmtPayload where "fmtPayload = u16le 1 @ u16le (int (opt_channels options))
             @ u32le (int (opt_sampleRate options))
             @ u32le (truncate_real (real (opt_sampleRate options) * (real (opt_channels options) * (real 16 / 8))))
             @ u16le (truncate_real (real (opt_channels options) * (real 16 / 8)))
             @ u16le (int 16)"
  define smplPayload where "smplPayload = u32le 0 @ u32le 0
             @ u32le (if opt_sampleRate options > 0 then \<lfloor>(1 / real (opt_sampleRate options)) * 1000000000\<rfloor> else 0)
             @ u32le 60 @ u32le 0 @ u32le 0 @ u32le 0 @ u32le 0 @ u32le 0"
  define header where "header = ascii ''RIFF'' @ u32le 292 @ ascii ''WAVE''"
  have parts: "fmtChunk = ascii ''fmt '' @ u32le (int 16) @ fmtPayload"
    "smplChunk = ascii ''smpl'' @ u32le (int 36) @ smplPayload"
    "listChunk = ascii ''LIST'' @ u32le (int 204) @ (list_payload [] @ [0])"
    by (simp_all add: fmtChunk_def fmtPayload_def smplChunk_def smplPayload_def listChunk_def)
  have plen: "length header = 12" "length fmtPayload = 16" "length smplPayload = 36"
    "length (list_payload [] @ [0 :: byte]) = 204"
    by (simp_all add: header_def fmtPayload_def smplPayload_def length_ascii length_u16le length_u32le
        length_list_payload length_tnge_json_empty)
  have olen: "length out = 300"
    by (simp add: out_def len length_ascii length_u32le)
  have w1: "chunk_walk out 12 = (''fmt '', 16, 12 + 8) # chunk_walk out (12 + 8 + 16 + 16 mod 2)"
    by (rule chunk_walk_chunk [where pre = header and payload = fmtPayload
          and rest = "listChunk @ smplChunk @ (ascii ''data'' @ u32le 0)"])
       (simp_all add: out_def header_def parts(1) plen length_ascii length_u32le)
  have w2: "chunk_walk out 36 = (''LIST'', 204, 36 + 8) # chunk_walk out (36 + 8 + 204 + 204 mod 2)"
    by (rule chunk_walk_chunk [where pre = "header @ fmtChunk" and payload = "list_payload [] @ [0]"
          and rest = "smplChunk @ (ascii ''data'' @ u32le 0)"])
       (simp_all add: out_def header_def parts(3) plen len length_ascii length_u32le
          length_list_payload length_tnge_json_empty)
  have w3: "chunk_walk out 248 = (''smpl'', 36, 248 + 8) # chunk_walk out (248 + 8 + 36 + 36 mod 2)"
    by (rule chunk_walk_chunk [where pre = "header @ fmtChunk @ listChunk" and payload = smplPayload
          and rest = "ascii ''data'' @ u32le 0"])
       (simp_all add: out_def header_def parts(2) plen len length_ascii length_u32le)
  have w4: "chunk_walk out 292 = (''data'', 0, 292 + 8) # chunk_walk out (292 + 8 + 0 + 0 mod 2)"
    by (rule chunk_walk_chunk [where pre = "header @ fmtChunk @ listChunk @ smplChunk" and payload = "[]"
          and rest = "[]"])
       (simp_all add: out_def header_def plen len length_ascii length_u32le)
  have w5: "chunk_walk out 300 = []"
    by (rule chunk_walk_end) (simp add: olen)
  have walk: "chunk_walk out 12
      = [(''fmt '', 16, 20), (''LIST'', 204, 44), (''smpl'', 36, 256), (''data'', 0, 300)]"
    using w1 w2 w3 w4 w5 by simp
  from fmt smpl len exported walk
  have chunks: "\<exists>fmtChunk smplChunk.
           buildFmtChunkPcm (opt_channels options) (opt_sampleRate options) 16 = Some fmtChunk
         \<and> length fmtChunk = 24
         \<and> buildSmplChunk (opt_sampleRate options) = Some smplChunk
         \<and> length smplChunk = 44
         \<and> exportAcDryKitWavPcm16 [] options
             = Some (ascii ''RIFF'' @ u32le 292 @ ascii ''WAVE''
                     @ fmtChunk
                     @ (ascii ''LIST'' @ u32le 204 @ list_payload [] @ [0])
                     @ smplChunk
                     @ (ascii ''data'' @ u32le 0),
                     Num 0)
         \<and> chunk_walk (ascii ''RIFF'' @ u32le 292 @ ascii ''WAVE''
                     @ fmtChunk
                     @ (ascii ''LIST'' @ u32le 204 @ list_payload [] @ [0])
                     @ smplChunk
                     @ (ascii ''data'' @ u32le 0)) 12
             = [(''fmt '', 16, 20), (''LIST'', 204, 44), (''smpl'', 36, 256), (''data'', 0, 300)]"
    unfolding listChunk_def out_def by blast
  from chunks tnge_json_empty show ?thesis by (rule conjI)
qed

theorem empty_kit_witness:
  "exportAcDryKitWavPcm16 [] mono_44100
     = Some (ascii ''RIFF'' @ u32le 292 @ ascii ''WAVE''
             @ the (buildFmtChunkPcm 1 44100 16)
             @ (ascii ''LIST'' @ u32le 204 @ list_payload [] @ [0])
             @ the (buildSmplChunk 44100)
             @ (ascii ''data'' @ u32le 0),
             Num 0)"
  using empty_kit [of mono_44100] by (auto simp: mono_44100_def)

end
